theory Spec2Isabelle
  imports Main "HOL-Library.Char_ord" "HOL-Library.List_Lexorder" "HOL-Library.Sublist"
begin

section \<open>Errors, stored values and the flat store\<close>

text \<open>
  The exceptions raised in \<^verbatim>\<open>zarr/hierarchy.py\<close>, one constructor per kind:
  \<^verbatim>\<open>err_contains_array\<close>, \<^verbatim>\<open>err_group_not_found\<close>, \<^verbatim>\<open>err_read_only\<close>, Python's
  \<^verbatim>\<open>KeyError\<close> and \<^verbatim>\<open>TypeError\<close>. \<open>RecursionError\<close> is what a generator nested deeper
  than the bound given to \<open>visit_gen\<close> raises; \<open>MetadataError\<close> is an array whose metadata
  document cannot be read.
\<close>

datatype error =
    ErrContainsArray
  | ErrGroupNotFound
  | ErrReadOnly
  | KeyError
  | TypeError
  | RecursionError
  | MetadataError

text \<open>
  Element types: six of NumPy's dtypes, enough to tell the two directions of a safe cast
  apart. \<open>np_can_cast a b\<close> is \<^verbatim>\<open>np.can_cast(a, b)\<close> under the default "safe" rule.
\<close>

datatype dtype = Int8 | Int16 | Int32 | Int64 | Float32 | Float64

fun np_can_cast :: "dtype \<Rightarrow> dtype \<Rightarrow> bool" where
  "np_can_cast Int8 _ = True"
| "np_can_cast Int16 t = (t \<noteq> Int8)"
| "np_can_cast Int32 t = (t = Int32 \<or> t = Int64 \<or> t = Float64)"
| "np_can_cast Int64 t = (t = Int64 \<or> t = Float64)"
| "np_can_cast Float32 t = (t = Float32 \<or> t = Float64)"
| "np_can_cast Float64 t = (t = Float64)"

text \<open>\<^verbatim>\<open>np.dtype(dtype)\<close>: an absent dtype (\<^verbatim>\<open>None\<close>) is float64.\<close>

fun np_dtype :: "dtype option \<Rightarrow> dtype" where
  "np_dtype None = Float64"
| "np_dtype (Some t) = t"

text \<open>
  A stored value is opaque bytes, an array metadata document, of which only the shape and
  the element type are read here, or a group metadata document. Bytes that are not a
  metadata document (\<^verbatim>\<open>b'{}'\<close> is one) are \<open>Raw\<close>. The store is Python's \<^verbatim>\<open>MutableMapping\<close> from
  string keys to values, kept as an association list: \<^verbatim>\<open>key in store\<close> is membership in
  the keys, \<^verbatim>\<open>store[key]\<close> is \<open>map_of\<close>, \<^verbatim>\<open>del store[key]\<close> filters the key out.
\<close>

datatype blob = Raw string | ArrayMeta "int list" dtype | GroupMeta

type_synonym store = "(string \<times> blob) list"

definition sep :: char where
  "sep = CHR ''/''"

definition store_keys :: "store \<Rightarrow> string list" where
  "store_keys s = map fst s"

section \<open>Collaborators of \<^verbatim>\<open>zarr.storage\<close> and \<^verbatim>\<open>zarr.util\<close>\<close>

text \<open>
  Modelled from the spec: the sentinel key names of \<^verbatim>\<open>zarr.storage\<close> (\<^verbatim>\<open>array_meta_key\<close>,
  \<^verbatim>\<open>group_meta_key\<close>, \<^verbatim>\<open>attrs_key\<close>) are imported by the source and not defined in it.
  The spec fixes only that they are reserved keys under a prefix; the names of the
  storage format are used.
\<close>

definition array_meta_key :: string where
  "array_meta_key = ''.zarray''"

definition group_meta_key :: string where
  "group_meta_key = ''.zgroup''"

definition attrs_key :: string where
  "attrs_key = ''.zattrs''"

text \<open>
  Modelled from the spec: \<^verbatim>\<open>normalize_storage_path\<close> of \<^verbatim>\<open>zarr.util\<close> is not in the
  source. The spec (4.1): strip leading and trailing separators and collapse empty
  segments; this model collapses silently and never rejects. An absent path
  (\<^verbatim>\<open>None\<close>) is the empty string.
\<close>

fun collapse :: "string \<Rightarrow> string" where
  "collapse (a # b # xs) =
     (if a = sep \<and> b = sep then collapse (b # xs) else a # collapse (b # xs))"
| "collapse xs = xs"

definition strip_sep :: "string \<Rightarrow> string" where
  "strip_sep p = rev (dropWhile (\<lambda>c. c = sep) (rev (dropWhile (\<lambda>c. c = sep) p)))"

definition normalize_storage_path :: "string \<Rightarrow> string" where
  "normalize_storage_path p = collapse (strip_sep p)"

text \<open>
  Modelled from the spec: \<^verbatim>\<open>contains_array\<close>, \<^verbatim>\<open>contains_group\<close>, \<^verbatim>\<open>listdir\<close> and
  \<^verbatim>\<open>rmdir\<close> of \<^verbatim>\<open>zarr.storage\<close> are not in the source. The spec (3, 4.2, 6): each
  classifier is one existence check of the sentinel key under the path's prefix (path
  plus separator, empty for the root); the child listing gives the set of next-level
  segment names below a prefix, not full descendants; subtree removal deletes by prefix.
\<close>

definition path_to_prefix :: "string \<Rightarrow> string" where
  "path_to_prefix path = (if path \<noteq> [] then path @ [sep] else [])"

definition contains_array :: "store \<Rightarrow> string \<Rightarrow> bool" where
  "contains_array s path = (path_to_prefix path @ array_meta_key \<in> set (store_keys s))"

definition contains_group :: "store \<Rightarrow> string \<Rightarrow> bool" where
  "contains_group s path = (path_to_prefix path @ group_meta_key \<in> set (store_keys s))"

definition listdir :: "store \<Rightarrow> string \<Rightarrow> string list" where
  "listdir s path =
     (let pre = path_to_prefix path in
      remdups (map (\<lambda>k. takeWhile (\<lambda>c. c \<noteq> sep) (drop (length pre) k))
                   (filter (\<lambda>k. prefix pre k \<and> length pre < length k) (store_keys s))))"

definition rmdir :: "store \<Rightarrow> string \<Rightarrow> store" where
  "rmdir s path = filter (\<lambda>kv. \<not> prefix (path_to_prefix path) (fst kv)) s"

text \<open>
  Modelled from the spec: \<^verbatim>\<open>decode_group_metadata\<close> of \<^verbatim>\<open>zarr.meta\<close> is not in the
  source. The spec (6): it takes the bytes under the group sentinel to the group metadata;
  bytes that are not a group metadata document make it raise.
\<close>

fun decode_group_metadata :: "blob \<Rightarrow> error + unit" where
  "decode_group_metadata GroupMeta = Inr ()"
| "decode_group_metadata _ = Inl MetadataError"

section \<open>Group handles\<close>

text \<open>
  The fields of \<^verbatim>\<open>Group\<close> that the operations below read. The store is passed beside the
  handle (the handle holds a reference to it); the attributes view, the info reporter and
  the decoded group metadata are set by the constructor and read by none of them, so the
  handle does not carry them. A
  synchronizer is a lock provider, named by a number. Handles with a separate chunk store
  are outside the model.

  Names follow the source; where a Python name is not an Isabelle name the underscores
  are dropped: \<open>Group_init\<close> is \<^verbatim>\<open>Group.__init__\<close>, \<open>iter_members\<close> is
  \<^verbatim>\<open>__iter__\<close>, \<open>len_members\<close> is \<^verbatim>\<open>__len__\<close>, \<open>contains\<close>, \<open>getitem\<close>,
  \<open>setitem\<close> and \<open>delitem\<close> are the item methods, \<open>write_op\<close> is \<^verbatim>\<open>_write_op\<close>, an
  operation \<open>f_nosync\<close> is \<^verbatim>\<open>_f_nosync\<close>, and \<open>array_op\<close> is \<^verbatim>\<open>Group.array\<close>.
\<close>

type_synonym synchronizer = nat

record group =
  g_path :: string
  g_key_prefix :: string
  g_read_only :: bool
  g_synchronizer :: "synchronizer option"

text \<open>
  Modelled from the spec: the \<^verbatim>\<open>Array\<close> handle of \<^verbatim>\<open>zarr.core\<close> is not in the source. It
  is a view keyed by a path (3); it has no \<^verbatim>\<open>keys\<close> (array handles have no children,
  4.4); its \<^verbatim>\<open>shape\<close> and \<^verbatim>\<open>dtype\<close> accessors (6) read the metadata document under the
  array sentinel key.
\<close>

record array =
  a_path :: string
  a_read_only :: bool
  a_synchronizer :: "synchronizer option"
  a_cache_metadata :: bool

definition Array_init :: "string \<Rightarrow> bool \<Rightarrow> synchronizer option \<Rightarrow> bool \<Rightarrow> array" where
  "Array_init path ro sy cm =
     \<lparr>a_path = normalize_storage_path path, a_read_only = ro, a_synchronizer = sy,
      a_cache_metadata = cm\<rparr>"

definition array_meta :: "store \<Rightarrow> array \<Rightarrow> error + (int list \<times> dtype)" where
  "array_meta s a =
     (case map_of s (path_to_prefix (a_path a) @ array_meta_key) of
        Some (ArrayMeta sh dt) \<Rightarrow> Inr (sh, dt)
      | _ \<Rightarrow> Inl MetadataError)"

text \<open>
  \<^verbatim>\<open>Group.__init__\<close>: the array guard, the read of the group sentinel, the decoding of
  what was read. The result is paired with the store as the constructor leaves it.
\<close>

definition Group_init ::
  "store \<Rightarrow> string \<Rightarrow> bool \<Rightarrow> synchronizer option \<Rightarrow> (error + group) \<times> store" where
  "Group_init s path ro sy =
     (let p = normalize_storage_path path;
          kp = (if p \<noteq> [] then p @ [sep] else [])
      in if contains_array s p then (Inl ErrContainsArray, s)
         else (case map_of s (kp @ group_meta_key) of
                 None \<Rightarrow> (Inl ErrGroupNotFound, s)
               | Some meta_bytes \<Rightarrow>
                   (case decode_group_metadata meta_bytes of
                      Inl e \<Rightarrow> (Inl e, s)
                    | Inr meta \<Rightarrow>
                        (Inr \<lparr>g_path = p, g_key_prefix = kp, g_read_only = ro,
                              g_synchronizer = sy\<rparr>, s))))"

text \<open>\<^verbatim>\<open>Group.name\<close>, and the same convention for arrays.\<close>

definition name_of_path :: "string \<Rightarrow> string" where
  "name_of_path p = (if p \<noteq> [] then (if hd p \<noteq> sep then sep # p else p) else [sep])"

definition group_name :: "group \<Rightarrow> string" where
  "group_name g = name_of_path (g_path g)"

text \<open>\<^verbatim>\<open>Group.__iter__\<close>, \<^verbatim>\<open>__len__\<close>, \<^verbatim>\<open>group_keys\<close> and \<^verbatim>\<open>array_keys\<close>.\<close>

definition iter_members :: "store \<Rightarrow> group \<Rightarrow> string list" where
  "iter_members s g =
     filter (\<lambda>key. let path = g_key_prefix g @ key
                    in contains_array s path \<or> contains_group s path)
            (sort (listdir s (g_path g)))"

definition len_members :: "store \<Rightarrow> group \<Rightarrow> nat" where
  "len_members s g = sum_list (map (\<lambda>_. 1) (iter_members s g))"

definition group_keys :: "store \<Rightarrow> group \<Rightarrow> string list" where
  "group_keys s g =
     filter (\<lambda>key. let path = g_key_prefix g @ key in contains_group s path)
            (sort (listdir s (g_path g)))"

definition array_keys :: "store \<Rightarrow> group \<Rightarrow> string list" where
  "array_keys s g =
     filter (\<lambda>key. let path = g_key_prefix g @ key in contains_array s path)
            (sort (listdir s (g_path g)))"

text \<open>\<^verbatim>\<open>Group._item_path\<close> and \<^verbatim>\<open>Group.__contains__\<close>.\<close>

definition item_path :: "group \<Rightarrow> string \<Rightarrow> string" where
  "item_path g item =
     (let absolute = (item \<noteq> [] \<and> hd item = sep);
          path = normalize_storage_path item
      in if \<not> absolute \<and> g_path g \<noteq> [] then g_key_prefix g @ path else path)"

definition contains :: "store \<Rightarrow> group \<Rightarrow> string \<Rightarrow> bool" where
  "contains s g item =
     (let path = item_path g item in contains_array s path \<or> contains_group s path)"

section \<open>The mutation guard and the mutating operations\<close>

text \<open>
  What a mutating operation can change: the store, and the log of lock events of the
  synchronizers (\<^verbatim>\<open>with synchronizer[key]:\<close> acquires on entry and releases on every exit).
\<close>

datatype lock_event = Acquire synchronizer string | Release synchronizer string

record world =
  w_store :: store
  w_locks :: "lock_event list"

text \<open>\<^verbatim>\<open>Group._write_op\<close>: \<open>f\<close> is the guarded operation with its arguments applied.\<close>

definition write_op ::
  "group \<Rightarrow> (world \<Rightarrow> (error + 'a) \<times> world) \<Rightarrow> world \<Rightarrow> (error + 'a) \<times> world" where
  "write_op g f w =
     (if g_read_only g then (Inl ErrReadOnly, w)
      else (case g_synchronizer g of
              None \<Rightarrow> f w
            | Some sy \<Rightarrow>
                (let (r, w') = f (w\<lparr>w_locks := w_locks w @ [Acquire sy group_meta_key]\<rparr>)
                 in (r, w'\<lparr>w_locks := w_locks w' @ [Release sy group_meta_key]\<rparr>))))"

text \<open>
  An operation runs its body under the root lock: with a synchronizer on the handle, the
  body runs after the lock of that synchronizer was acquired under \<^verbatim>\<open>group_meta_key\<close> and
  the lock is released under the same key after it, whatever the body's result, which is
  the operation's result; with no synchronizer the operation is its body.
\<close>

definition under_root_lock ::
  "group \<Rightarrow> (world \<Rightarrow> (error + 'a) \<times> world) \<Rightarrow> (world \<Rightarrow> (error + 'a) \<times> world) \<Rightarrow> world
     \<Rightarrow> bool" where
  "under_root_lock g op body w =
     (case g_synchronizer g of
        None \<Rightarrow> op w = body w
      | Some sy \<Rightarrow>
          op w =
            (fst (body (w\<lparr>w_locks := w_locks w @ [Acquire sy group_meta_key]\<rparr>)),
             (snd (body (w\<lparr>w_locks := w_locks w @ [Acquire sy group_meta_key]\<rparr>)))
               \<lparr>w_locks :=
                  w_locks (snd (body (w\<lparr>w_locks := w_locks w @ [Acquire sy group_meta_key]\<rparr>)))
                    @ [Release sy group_meta_key]\<rparr>))"

text \<open>
  Keyword arguments: the keys the source reads or sets by name, each absent (\<open>None\<close>) or
  given, and the remaining ones as they are. The shape argument is an int or a tuple of
  ints (docstring of \<^verbatim>\<open>create_dataset\<close>).
\<close>

datatype shape_arg = ShapeInt int | ShapeTuple "int list"

record 'd kwargs =
  kw_synchronizer :: "synchronizer option option"
  kw_cache_metadata :: "bool option"
  kw_overwrite :: "bool option"
  kw_shape :: "shape_arg option"
  kw_dtype :: "dtype option option"
  kw_data :: "'d option"
  kw_rest :: "(string \<times> string) list"

definition no_kwargs :: "'d kwargs" where
  "no_kwargs = \<lparr>kw_synchronizer = None, kw_cache_metadata = None, kw_overwrite = None,
                kw_shape = None, kw_dtype = None, kw_data = None, kw_rest = []\<rparr>"

text \<open>\<^verbatim>\<open>kwargs.setdefault('synchronizer', self._synchronizer)\<close>.\<close>

definition setdefault_synchronizer :: "group \<Rightarrow> 'd kwargs \<Rightarrow> 'd kwargs" where
  "setdefault_synchronizer g kw =
     (case kw_synchronizer kw of
        None \<Rightarrow> kw\<lparr>kw_synchronizer := Some (g_synchronizer g)\<rparr>
      | Some _ \<Rightarrow> kw)"

text \<open>
  Modelled from the spec: \<^verbatim>\<open>normalize_shape\<close> of \<^verbatim>\<open>zarr.util\<close> is not in the source; an
  int is the one-dimensional shape of that length.
\<close>

fun normalize_shape :: "shape_arg \<Rightarrow> int list" where
  "normalize_shape (ShapeInt n) = [n]"
| "normalize_shape (ShapeTuple ns) = ns"

text \<open>
  The group initialiser of \<^verbatim>\<open>zarr.storage\<close> and the array factories of \<^verbatim>\<open>zarr.creation\<close>
  are external collaborators (spec, 6): parameters of the operations that call them.
  Each takes the path or the data first, as the source passes them, then the keyword
  arguments, and may change the store or fail.
\<close>

record ('d, 'f) creation =
  x_init_group :: "string \<Rightarrow> bool \<Rightarrow> world \<Rightarrow> (error + unit) \<times> world"
  x_create :: "string \<Rightarrow> 'd kwargs \<Rightarrow> world \<Rightarrow> (error + array) \<times> world"
  x_array :: "'d \<Rightarrow> string \<Rightarrow> 'd kwargs \<Rightarrow> world \<Rightarrow> (error + array) \<times> world"
  x_empty :: "string \<Rightarrow> 'd kwargs \<Rightarrow> world \<Rightarrow> (error + array) \<times> world"
  x_zeros :: "string \<Rightarrow> 'd kwargs \<Rightarrow> world \<Rightarrow> (error + array) \<times> world"
  x_ones :: "string \<Rightarrow> 'd kwargs \<Rightarrow> world \<Rightarrow> (error + array) \<times> world"
  x_full :: "string \<Rightarrow> 'f \<Rightarrow> 'd kwargs \<Rightarrow> world \<Rightarrow> (error + array) \<times> world"
  x_empty_like :: "'d \<Rightarrow> string \<Rightarrow> 'd kwargs \<Rightarrow> world \<Rightarrow> (error + array) \<times> world"
  x_zeros_like :: "'d \<Rightarrow> string \<Rightarrow> 'd kwargs \<Rightarrow> world \<Rightarrow> (error + array) \<times> world"
  x_ones_like :: "'d \<Rightarrow> string \<Rightarrow> 'd kwargs \<Rightarrow> world \<Rightarrow> (error + array) \<times> world"
  x_full_like :: "'d \<Rightarrow> string \<Rightarrow> 'd kwargs \<Rightarrow> world \<Rightarrow> (error + array) \<times> world"

text \<open>The constructor \<^verbatim>\<open>Group(self._store, path=path, ...)\<close> with the caller's settings.\<close>

definition Group_like :: "group \<Rightarrow> string \<Rightarrow> world \<Rightarrow> (error + group) \<times> world" where
  "Group_like g path w =
     (let (r, s') = Group_init (w_store w) path (g_read_only g) (g_synchronizer g)
      in (r, w\<lparr>w_store := s'\<rparr>))"

definition create_group_nosync ::
  "('d, 'f) creation \<Rightarrow> group \<Rightarrow> string \<Rightarrow> bool \<Rightarrow> world \<Rightarrow> (error + group) \<times> world" where
  "create_group_nosync X g name overwrite w =
     (let path = item_path g name
      in case x_init_group X path overwrite w of
           (Inl e, w') \<Rightarrow> (Inl e, w')
         | (Inr _, w') \<Rightarrow> Group_like g path w')"

definition create_group ::
  "('d, 'f) creation \<Rightarrow> group \<Rightarrow> string \<Rightarrow> bool \<Rightarrow> world \<Rightarrow> (error + group) \<times> world" where
  "create_group X g name overwrite = write_op g (create_group_nosync X g name overwrite)"

definition require_group_nosync ::
  "('d, 'f) creation \<Rightarrow> group \<Rightarrow> string \<Rightarrow> bool \<Rightarrow> world \<Rightarrow> (error + group) \<times> world" where
  "require_group_nosync X g name overwrite w =
     (let path = item_path g name
      in if \<not> contains_group (w_store w) path
         then (case x_init_group X path overwrite w of
                 (Inl e, w') \<Rightarrow> (Inl e, w')
               | (Inr _, w') \<Rightarrow> Group_like g path w')
         else Group_like g path w)"

definition require_group ::
  "('d, 'f) creation \<Rightarrow> group \<Rightarrow> string \<Rightarrow> bool \<Rightarrow> world \<Rightarrow> (error + group) \<times> world" where
  "require_group X g name overwrite = write_op g (require_group_nosync X g name overwrite)"

text \<open>
  \<^verbatim>\<open>_create_dataset_nosync(name, data=None, **kwargs)\<close>: \<^verbatim>\<open>data\<close> is taken out of the
  keyword arguments by the signature.
\<close>

definition create_dataset_nosync ::
  "('d, 'f) creation \<Rightarrow> group \<Rightarrow> string \<Rightarrow> 'd kwargs \<Rightarrow> world \<Rightarrow> (error + array) \<times> world" where
  "create_dataset_nosync X g name kwargs w =
     (let path = item_path g name;
          data = kw_data kwargs;
          kw = setdefault_synchronizer g (kwargs\<lparr>kw_data := None\<rparr>)
      in case data of
           None \<Rightarrow> x_create X path kw w
         | Some d \<Rightarrow> x_array X d path kw w)"

definition create_dataset ::
  "('d, 'f) creation \<Rightarrow> group \<Rightarrow> string \<Rightarrow> 'd kwargs \<Rightarrow> world \<Rightarrow> (error + array) \<times> world" where
  "create_dataset X g name kwargs = write_op g (create_dataset_nosync X g name kwargs)"

text \<open>\<^verbatim>\<open>Group._require_dataset_nosync\<close> and \<^verbatim>\<open>Group.require_dataset\<close>.\<close>

definition require_dataset_nosync ::
  "('d, 'f) creation \<Rightarrow> group \<Rightarrow> string \<Rightarrow> shape_arg \<Rightarrow> dtype option \<Rightarrow> bool \<Rightarrow> 'd kwargs
     \<Rightarrow> world \<Rightarrow> (error + array) \<times> world" where
  "require_dataset_nosync X g name shape dtype exact kwargs w =
     (let path = item_path g name
      in if contains_array (w_store w) path
         then (let synchronizer = (case kw_synchronizer kwargs of
                                     None \<Rightarrow> g_synchronizer g | Some sy \<Rightarrow> sy);
                   cache_metadata = (case kw_cache_metadata kwargs of
                                       None \<Rightarrow> True | Some c \<Rightarrow> c);
                   a = Array_init path (g_read_only g) synchronizer cache_metadata
               in case array_meta (w_store w) a of
                    Inl e \<Rightarrow> (Inl e, w)
                  | Inr (a_shape, a_dtype) \<Rightarrow>
                      if normalize_shape shape \<noteq> a_shape then (Inl TypeError, w)
                      else if exact
                      then (if np_dtype dtype \<noteq> a_dtype then (Inl TypeError, w)
                            else (Inr a, w))
                      else (if \<not> np_can_cast (np_dtype dtype) a_dtype then (Inl TypeError, w)
                            else (Inr a, w)))
         else create_dataset_nosync X g name
                (kwargs\<lparr>kw_shape := Some shape, kw_dtype := Some dtype\<rparr>) w)"

definition require_dataset ::
  "('d, 'f) creation \<Rightarrow> group \<Rightarrow> string \<Rightarrow> shape_arg \<Rightarrow> dtype option \<Rightarrow> bool \<Rightarrow> 'd kwargs
     \<Rightarrow> world \<Rightarrow> (error + array) \<times> world" where
  "require_dataset X g name shape dtype exact kwargs =
     write_op g (require_dataset_nosync X g name shape dtype exact kwargs)"

text \<open>\<^verbatim>\<open>Group.create\<close> and the array factories, each guarded by \<^verbatim>\<open>_write_op\<close>.\<close>

definition create_nosync ::
  "('d, 'f) creation \<Rightarrow> group \<Rightarrow> string \<Rightarrow> 'd kwargs \<Rightarrow> world \<Rightarrow> (error + array) \<times> world" where
  "create_nosync X g name kwargs w =
     (let path = item_path g name in x_create X path (setdefault_synchronizer g kwargs) w)"

definition create ::
  "('d, 'f) creation \<Rightarrow> group \<Rightarrow> string \<Rightarrow> 'd kwargs \<Rightarrow> world \<Rightarrow> (error + array) \<times> world" where
  "create X g name kwargs = write_op g (create_nosync X g name kwargs)"

definition empty_nosync ::
  "('d, 'f) creation \<Rightarrow> group \<Rightarrow> string \<Rightarrow> 'd kwargs \<Rightarrow> world \<Rightarrow> (error + array) \<times> world" where
  "empty_nosync X g name kwargs w =
     (let path = item_path g name in x_empty X path (setdefault_synchronizer g kwargs) w)"

definition empty ::
  "('d, 'f) creation \<Rightarrow> group \<Rightarrow> string \<Rightarrow> 'd kwargs \<Rightarrow> world \<Rightarrow> (error + array) \<times> world" where
  "empty X g name kwargs = write_op g (empty_nosync X g name kwargs)"

definition zeros_nosync ::
  "('d, 'f) creation \<Rightarrow> group \<Rightarrow> string \<Rightarrow> 'd kwargs \<Rightarrow> world \<Rightarrow> (error + array) \<times> world" where
  "zeros_nosync X g name kwargs w =
     (let path = item_path g name in x_zeros X path (setdefault_synchronizer g kwargs) w)"

definition zeros ::
  "('d, 'f) creation \<Rightarrow> group \<Rightarrow> string \<Rightarrow> 'd kwargs \<Rightarrow> world \<Rightarrow> (error + array) \<times> world" where
  "zeros X g name kwargs = write_op g (zeros_nosync X g name kwargs)"

definition ones_nosync ::
  "('d, 'f) creation \<Rightarrow> group \<Rightarrow> string \<Rightarrow> 'd kwargs \<Rightarrow> world \<Rightarrow> (error + array) \<times> world" where
  "ones_nosync X g name kwargs w =
     (let path = item_path g name in x_ones X path (setdefault_synchronizer g kwargs) w)"

definition ones ::
  "('d, 'f) creation \<Rightarrow> group \<Rightarrow> string \<Rightarrow> 'd kwargs \<Rightarrow> world \<Rightarrow> (error + array) \<times> world" where
  "ones X g name kwargs = write_op g (ones_nosync X g name kwargs)"

definition full_nosync ::
  "('d, 'f) creation \<Rightarrow> group \<Rightarrow> string \<Rightarrow> 'f \<Rightarrow> 'd kwargs \<Rightarrow> world
     \<Rightarrow> (error + array) \<times> world" where
  "full_nosync X g name fill_value kwargs w =
     (let path = item_path g name
      in x_full X path fill_value (setdefault_synchronizer g kwargs) w)"

definition full ::
  "('d, 'f) creation \<Rightarrow> group \<Rightarrow> string \<Rightarrow> 'f \<Rightarrow> 'd kwargs \<Rightarrow> world
     \<Rightarrow> (error + array) \<times> world" where
  "full X g name fill_value kwargs = write_op g (full_nosync X g name fill_value kwargs)"

definition array_nosync ::
  "('d, 'f) creation \<Rightarrow> group \<Rightarrow> string \<Rightarrow> 'd \<Rightarrow> 'd kwargs \<Rightarrow> world
     \<Rightarrow> (error + array) \<times> world" where
  "array_nosync X g name data kwargs w =
     (let path = item_path g name in x_array X data path (setdefault_synchronizer g kwargs) w)"

definition array_op ::
  "('d, 'f) creation \<Rightarrow> group \<Rightarrow> string \<Rightarrow> 'd \<Rightarrow> 'd kwargs \<Rightarrow> world
     \<Rightarrow> (error + array) \<times> world" where
  "array_op X g name data kwargs = write_op g (array_nosync X g name data kwargs)"

definition empty_like_nosync ::
  "('d, 'f) creation \<Rightarrow> group \<Rightarrow> string \<Rightarrow> 'd \<Rightarrow> 'd kwargs \<Rightarrow> world
     \<Rightarrow> (error + array) \<times> world" where
  "empty_like_nosync X g name data kwargs w =
     (let path = item_path g name
      in x_empty_like X data path (setdefault_synchronizer g kwargs) w)"

definition empty_like ::
  "('d, 'f) creation \<Rightarrow> group \<Rightarrow> string \<Rightarrow> 'd \<Rightarrow> 'd kwargs \<Rightarrow> world
     \<Rightarrow> (error + array) \<times> world" where
  "empty_like X g name data kwargs = write_op g (empty_like_nosync X g name data kwargs)"

definition zeros_like_nosync ::
  "('d, 'f) creation \<Rightarrow> group \<Rightarrow> string \<Rightarrow> 'd \<Rightarrow> 'd kwargs \<Rightarrow> world
     \<Rightarrow> (error + array) \<times> world" where
  "zeros_like_nosync X g name data kwargs w =
     (let path = item_path g name
      in x_zeros_like X data path (setdefault_synchronizer g kwargs) w)"

definition zeros_like ::
  "('d, 'f) creation \<Rightarrow> group \<Rightarrow> string \<Rightarrow> 'd \<Rightarrow> 'd kwargs \<Rightarrow> world
     \<Rightarrow> (error + array) \<times> world" where
  "zeros_like X g name data kwargs = write_op g (zeros_like_nosync X g name data kwargs)"

definition ones_like_nosync ::
  "('d, 'f) creation \<Rightarrow> group \<Rightarrow> string \<Rightarrow> 'd \<Rightarrow> 'd kwargs \<Rightarrow> world
     \<Rightarrow> (error + array) \<times> world" where
  "ones_like_nosync X g name data kwargs w =
     (let path = item_path g name
      in x_ones_like X data path (setdefault_synchronizer g kwargs) w)"

definition ones_like ::
  "('d, 'f) creation \<Rightarrow> group \<Rightarrow> string \<Rightarrow> 'd \<Rightarrow> 'd kwargs \<Rightarrow> world
     \<Rightarrow> (error + array) \<times> world" where
  "ones_like X g name data kwargs = write_op g (ones_like_nosync X g name data kwargs)"

definition full_like_nosync ::
  "('d, 'f) creation \<Rightarrow> group \<Rightarrow> string \<Rightarrow> 'd \<Rightarrow> 'd kwargs \<Rightarrow> world
     \<Rightarrow> (error + array) \<times> world" where
  "full_like_nosync X g name data kwargs w =
     (let path = item_path g name
      in x_full_like X data path (setdefault_synchronizer g kwargs) w)"

definition full_like ::
  "('d, 'f) creation \<Rightarrow> group \<Rightarrow> string \<Rightarrow> 'd \<Rightarrow> 'd kwargs \<Rightarrow> world
     \<Rightarrow> (error + array) \<times> world" where
  "full_like X g name data kwargs = write_op g (full_like_nosync X g name data kwargs)"

text \<open>\<^verbatim>\<open>Group.__setitem__\<close>: \<^verbatim>\<open>self.array(item, value, overwrite=True)\<close>.\<close>

definition setitem ::
  "('d, 'f) creation \<Rightarrow> group \<Rightarrow> string \<Rightarrow> 'd \<Rightarrow> world \<Rightarrow> (error + array) \<times> world" where
  "setitem X g item v = array_op X g item v (no_kwargs\<lparr>kw_overwrite := Some True\<rparr>)"

text \<open>\<^verbatim>\<open>Group._delitem_nosync\<close> and \<^verbatim>\<open>Group.__delitem__\<close>.\<close>

definition delitem_nosync :: "group \<Rightarrow> string \<Rightarrow> world \<Rightarrow> (error + unit) \<times> world" where
  "delitem_nosync g item w =
     (let path = item_path g item
      in if contains_array (w_store w) path \<or> contains_group (w_store w) path
         then (Inr (), w\<lparr>w_store := rmdir (w_store w) path\<rparr>)
         else (Inl KeyError, w))"

definition delitem :: "group \<Rightarrow> string \<Rightarrow> world \<Rightarrow> (error + unit) \<times> world" where
  "delitem g item = write_op g (delitem_nosync g item)"

section \<open>Lookup and recursive traversal\<close>

text \<open>
  What \<^verbatim>\<open>Group.__getitem__\<close> returns and what the traversal yields: a group handle or an
  array handle.
\<close>

datatype node = GroupNode group | ArrayNode array

fun node_path :: "node \<Rightarrow> string" where
  "node_path (GroupNode g) = g_path g"
| "node_path (ArrayNode a) = a_path a"

text \<open>\<^verbatim>\<open>o.name\<close>: \<^verbatim>\<open>Group.name\<close> for a group, the same convention for an array.\<close>

definition node_name :: "node \<Rightarrow> string" where
  "node_name obj = name_of_path (node_path obj)"

text \<open>\<^verbatim>\<open>Group.__getitem__\<close>.\<close>

definition getitem :: "store \<Rightarrow> group \<Rightarrow> string \<Rightarrow> error + node" where
  "getitem s g item =
     (let path = item_path g item
      in if contains_array s path
         then Inr (ArrayNode (Array_init path (g_read_only g) (g_synchronizer g) True))
         else if contains_group s path
         then (case fst (Group_init s path (g_read_only g) (g_synchronizer g)) of
                 Inl e \<Rightarrow> Inl e
               | Inr c \<Rightarrow> Inr (GroupNode c))
         else Inl KeyError)"

text \<open>
  \<^verbatim>\<open>sorted(getattr(obj, "keys", lambda: [])())\<close> and \<^verbatim>\<open>obj[each_key]\<close> in \<^verbatim>\<open>_visit\<close>: a
  group's keys are its member names (\<^verbatim>\<open>keys()\<close> of a \<^verbatim>\<open>MutableMapping\<close> iterates the
  object); an array has no \<^verbatim>\<open>keys\<close>, so it is never indexed.
\<close>

fun node_keys :: "store \<Rightarrow> node \<Rightarrow> string list" where
  "node_keys s (GroupNode g) = sort (iter_members s g)"
| "node_keys s (ArrayNode a) = []"

fun node_getitem :: "store \<Rightarrow> node \<Rightarrow> string \<Rightarrow> error + node" where
  "node_getitem s (GroupNode g) k = getitem s g k"
| "node_getitem s (ArrayNode a) k = Inl TypeError"

text \<open>
  The generator \<^verbatim>\<open>_visit\<close> of \<^verbatim>\<open>Group.visitvalues\<close>. A generator is the list of the
  objects it yields and the exception that ends it, if one does: what it yields before the
  exception is consumed before the exception is seen. The first argument bounds the
  nesting depth of the generators; where it is used up the generator raises
  \<open>RecursionError\<close> in place of going on. \<open>visit_keys\<close> is the loop over the keys.
\<close>

fun visit_gen :: "nat \<Rightarrow> store \<Rightarrow> node \<Rightarrow> node list \<times> error option"
and visit_keys :: "nat \<Rightarrow> store \<Rightarrow> node \<Rightarrow> string list \<Rightarrow> node list \<times> error option" where
  "visit_gen 0 s obj = ([], Some RecursionError)"
| "visit_gen (Suc n) s obj =
     (let (ys, e) = visit_keys n s obj (node_keys s obj) in (obj # ys, e))"
| "visit_keys n s obj [] = ([], None)"
| "visit_keys n s obj (each_key # keys) =
     (case node_getitem s obj each_key of
        Inl e \<Rightarrow> ([], Some e)
      | Inr child \<Rightarrow>
          (case visit_gen n s child of
             (ys, Some e) \<Rightarrow> (ys, Some e)
           | (ys, None) \<Rightarrow> (let (zs, e) = visit_keys n s obj keys in (ys @ zs, e))))"

text \<open>
  The loop of \<^verbatim>\<open>visitvalues\<close> over the yielded objects: the value \<^verbatim>\<open>func\<close> returned, if
  one was not \<^verbatim>\<open>None\<close>, and the objects \<^verbatim>\<open>func\<close> was called on, in order.
\<close>

fun visit_loop :: "(node \<Rightarrow> 'v option) \<Rightarrow> node list \<Rightarrow> 'v option \<times> node list" where
  "visit_loop func [] = (None, [])"
| "visit_loop func (each_obj # rest) =
     (case func each_obj of
        Some v \<Rightarrow> (Some v, [each_obj])
      | None \<Rightarrow> (let (r, called) = visit_loop func rest in (r, each_obj # called)))"

text \<open>
  \<^verbatim>\<open>Group.visitvalues\<close>: \<^verbatim>\<open>islice(_visit(self), 1, None)\<close> drops the first object. The
  result is what the call returns or raises, and the objects \<^verbatim>\<open>func\<close> was called on.
\<close>

definition visitvalues ::
  "nat \<Rightarrow> store \<Rightarrow> group \<Rightarrow> (node \<Rightarrow> 'v option) \<Rightarrow> (error + 'v option) \<times> node list" where
  "visitvalues d s g func =
     (let (ys, e) = visit_gen d s (GroupNode g);
          (r, called) = visit_loop func (drop 1 ys)
      in case r of
           Some v \<Rightarrow> (Inr (Some v), called)
         | None \<Rightarrow> (case e of Some err \<Rightarrow> (Inl err, called) | None \<Rightarrow> (Inr None, called)))"

text \<open>\<^verbatim>\<open>Group.visit\<close>; \<open>lstrip_sep\<close> is \<^verbatim>\<open>.lstrip("/")\<close>.\<close>

definition lstrip_sep :: "string \<Rightarrow> string" where
  "lstrip_sep p = dropWhile (\<lambda>c. c = sep) p"

definition visit ::
  "nat \<Rightarrow> store \<Rightarrow> group \<Rightarrow> (string \<Rightarrow> 'v option) \<Rightarrow> (error + 'v option) \<times> node list" where
  "visit d s g func =
     (let base_len = length (group_name g)
      in visitvalues d s g (\<lambda>obj. func (lstrip_sep (drop base_len (node_name obj)))))"

section \<open>Notions used to state the properties\<close>

text \<open>The shape and element type of the array stored at a path, if one is.\<close>

definition stored_array :: "store \<Rightarrow> string \<Rightarrow> (int list \<times> dtype) option" where
  "stored_array s path =
     (if contains_array s path
      then (case array_meta s (Array_init path False None True) of
              Inr m \<Rightarrow> Some m | Inl _ \<Rightarrow> None)
      else None)"

text \<open>
  A store of a hierarchy has normalised paths as keys, and every value under a key that
  ends in the group sentinel name is a group metadata document; a handle made by the
  constructor has a normalised path and the prefix that goes with it.
\<close>

definition wf_store :: "store \<Rightarrow> bool" where
  "wf_store s =
     (list_all (\<lambda>k. normalize_storage_path k = k) (store_keys s) \<and>
      list_all (\<lambda>kv. suffix group_meta_key (fst kv) \<longrightarrow>
                       decode_group_metadata (snd kv) = Inr ()) s)"

definition valid_group :: "group \<Rightarrow> bool" where
  "valid_group g =
     (normalize_storage_path (g_path g) = g_path g \<and> g_key_prefix g = path_to_prefix (g_path g))"

text \<open>The length of the longest key: no path of the hierarchy is nested deeper.\<close>

definition key_bound :: "store \<Rightarrow> nat" where
  "key_bound s = foldr (\<lambda>k m. max (length k) m) (store_keys s) 0"

text \<open>The objects below a group, in the order the generator yields them.\<close>

definition descendants :: "nat \<Rightarrow> store \<Rightarrow> group \<Rightarrow> node list" where
  "descendants d s g = drop 1 (fst (visit_gen d s (GroupNode g)))"

text \<open>A member of a group with the objects below it.\<close>

definition subtree :: "nat \<Rightarrow> store \<Rightarrow> group \<Rightarrow> string \<Rightarrow> node list" where
  "subtree d s g k =
     (case getitem s g k of
        Inl e \<Rightarrow> []
      | Inr (ArrayNode a) \<Rightarrow> [ArrayNode a]
      | Inr (GroupNode c) \<Rightarrow> GroupNode c # descendants d s c)"

text \<open>
  The path of an object relative to a group, and the segments of a path (Python's
  \<^verbatim>\<open>split("/")\<close>).
\<close>

definition rel_path :: "group \<Rightarrow> node \<Rightarrow> string" where
  "rel_path g obj = lstrip_sep (drop (length (group_name g)) (node_name obj))"

fun split_sep :: "string \<Rightarrow> string list" where
  "split_sep [] = [] # []"
| "split_sep (c # cs) =
     (if c = sep then [] # split_sep cs
      else (case split_sep cs of [] \<Rightarrow> [c] # [] | y # ys \<Rightarrow> (c # y) # ys))"

text \<open>
  A normalised path, said by its structure: empty, or without a separator at either end
  and without two separators in a row.
\<close>

fun nodouble :: "string \<Rightarrow> bool" where
  "nodouble (a # b # xs) = (\<not> (a = sep \<and> b = sep) \<and> nodouble (b # xs))"
| "nodouble xs = True"

definition clean :: "string \<Rightarrow> bool" where
  "clean p = (p = [] \<or> (hd p \<noteq> sep \<and> last p \<noteq> sep \<and> nodouble p))"

text \<open>
  An object lies below a group when its path is the group's prefix followed by a non-empty
  relative path; \<open>seg\<close> gives the segments of that relative path.
\<close>

definition below :: "group \<Rightarrow> node \<Rightarrow> bool" where
  "below g x = (\<exists>rel. node_path x = g_key_prefix g @ rel \<and> rel \<noteq> [] \<and> hd rel \<noteq> sep)"

definition seg :: "group \<Rightarrow> node \<Rightarrow> string list" where
  "seg g x = split_sep (drop (length (g_key_prefix g)) (node_path x))"

text \<open>
  The member of a group under a name: the handle \<^verbatim>\<open>__getitem__\<close> builds for it, an array
  where the array sentinel is present, a group otherwise.
\<close>

definition child_group :: "group \<Rightarrow> string \<Rightarrow> group" where
  "child_group g k =
     \<lparr>g_path = g_key_prefix g @ k, g_key_prefix = path_to_prefix (g_key_prefix g @ k),
      g_read_only = g_read_only g, g_synchronizer = g_synchronizer g\<rparr>"

definition child_array :: "group \<Rightarrow> string \<Rightarrow> array" where
  "child_array g k =
     \<lparr>a_path = g_key_prefix g @ k, a_read_only = g_read_only g,
      a_synchronizer = g_synchronizer g, a_cache_metadata = True\<rparr>"

definition child :: "store \<Rightarrow> group \<Rightarrow> string \<Rightarrow> node" where
  "child s g k =
     (if contains_array s (g_key_prefix g @ k) then ArrayNode (child_array g k)
      else GroupNode (child_group g k))"

text \<open>
  A generator that ends without an exception, yields its own object first, and after it
  only objects below it, in strictly increasing order of their segment lists.
\<close>

definition good :: "nat \<Rightarrow> store \<Rightarrow> node \<Rightarrow> bool" where
  "good n s c =
     (\<exists>ds. visit_gen n s c = (c # ds, None) \<and>
           (case c of
              ArrayNode a \<Rightarrow> ds = []
            | GroupNode g \<Rightarrow> (\<forall>x\<in>set ds. below g x) \<and> sorted_wrt (<) (map (seg g) ds)))"

fun valid_node :: "node \<Rightarrow> bool" where
  "valid_node (GroupNode g) = valid_group g"
| "valid_node (ArrayNode a) = True"

section \<open>A small hierarchy\<close>

definition demo_store :: store where
  "demo_store =
     [(''.zgroup'', GroupMeta),
      (''foo/.zarray'', ArrayMeta [1000] Float32),
      (''bar/.zgroup'', GroupMeta),
      (''bar/baz/.zgroup'', GroupMeta),
      (''bar/quux/.zgroup'', GroupMeta),
      (''bar/quux/data/.zarray'', ArrayMeta [2, 3] Int16),
      (''bar/quux/data/0.0'', Raw ''chunk''),
      (''stray/0'', Raw ''x'')]"

definition demo_world :: world where
  "demo_world = \<lparr>w_store = demo_store, w_locks = []\<rparr>"

definition root_group :: group where
  "root_group =
     \<lparr>g_path = [], g_key_prefix = [], g_read_only = False, g_synchronizer = None\<rparr>"

definition demo_factory :: "string \<Rightarrow> world \<Rightarrow> (error + array) \<times> world" where
  "demo_factory path w =
     (Inr (Array_init path False None True),
      w\<lparr>w_store := (path_to_prefix path @ array_meta_key, ArrayMeta [0] Float64) # w_store w\<rparr>)"

definition demo_creation :: "(unit, unit) creation" where
  "demo_creation =
     \<lparr>x_init_group = (\<lambda>path ov w.
         (Inr (), w\<lparr>w_store := (path_to_prefix path @ group_meta_key, GroupMeta) # w_store w\<rparr>)),
      x_create = (\<lambda>path kw. demo_factory path),
      x_array = (\<lambda>d path kw. demo_factory path),
      x_empty = (\<lambda>path kw. demo_factory path),
      x_zeros = (\<lambda>path kw. demo_factory path),
      x_ones = (\<lambda>path kw. demo_factory path),
      x_full = (\<lambda>path fv kw. demo_factory path),
      x_empty_like = (\<lambda>d path kw. demo_factory path),
      x_zeros_like = (\<lambda>d path kw. demo_factory path),
      x_ones_like = (\<lambda>d path kw. demo_factory path),
      x_full_like = (\<lambda>d path kw. demo_factory path)\<rparr>"

definition read_only_root :: group where
  "read_only_root = root_group\<lparr>g_read_only := True\<rparr>"

definition locked_root :: group where
  "locked_root = root_group\<lparr>g_synchronizer := Some 7\<rparr>"

text \<open>
  Two stores that are not well formed: one with a key that starts with the separator,
  one with bytes that are not group metadata under a group sentinel.
\<close>

definition bad_store :: store where
  "bad_store = [(''.zgroup'', GroupMeta), (''/x'', Raw ''x'')]"

definition undecodable_store :: store where
  "undecodable_store = [(''.zgroup'', GroupMeta), (''a/.zgroup'', Raw ''{}'')]"

text \<open>
  Visitors: one that never stops, one that stops at an object with the empty path, one
  that stops at the empty name.
\<close>

definition no_visitor :: "node \<Rightarrow> nat option" where
  "no_visitor obj = None"

definition root_visitor :: "node \<Rightarrow> nat option" where
  "root_visitor obj = (if node_path obj = [] then Some 0 else None)"

definition empty_name_visitor :: "string \<Rightarrow> nat option" where
  "empty_name_visitor p = (if p = [] then Some 0 else None)"

definition no_name_visitor :: "string \<Rightarrow> nat option" where
  "no_name_visitor p = None"

text \<open>Two visitors that stop at \<^verbatim>\<open>bar/baz\<close>, by path and by object.\<close>

definition demo_visitor :: "string \<Rightarrow> nat option" where
  "demo_visitor p = (if p = ''bar/baz'' then Some 2 else None)"

definition demo_node_visitor :: "node \<Rightarrow> nat option" where
  "demo_node_visitor obj = (if node_path obj = ''bar/baz'' then Some 2 else None)"

section \<open>Membership and iteration\<close>

lemma sorted_listing: "sorted (sort (listdir s p)) \<and> distinct (sort (listdir s p))"
  by (simp add: listdir_def Let_def)

lemma iter_members_sorted: "sorted (iter_members s g)"
  unfolding iter_members_def by (rule sorted_wrt_filter) (simp add: sorted_listing)

lemma iter_members_distinct: "distinct (iter_members s g)"
  unfolding iter_members_def by (simp add: listdir_def Let_def)

lemma group_keys_sorted: "sorted (group_keys s g) \<and> distinct (group_keys s g)"
  unfolding group_keys_def using sorted_listing sorted_wrt_filter distinct_filter by blast

lemma array_keys_sorted: "sorted (array_keys s g) \<and> distinct (array_keys s g)"
  unfolding array_keys_def using sorted_listing sorted_wrt_filter distinct_filter by blast

lemma iter_members_set:
  "set (iter_members s g) =
     {key \<in> set (listdir s (g_path g)).
        contains_array s (g_key_prefix g @ key) \<or> contains_group s (g_key_prefix g @ key)}"
  by (simp add: iter_members_def Let_def)

lemma len_members_length: "len_members s g = length (iter_members s g)"
  by (simp add: len_members_def sum_list_triv)

text \<open>
  Claim C5. Iterating a handle yields exactly the names of the child listing of its path
  that classify as an array or a group under its prefix, each once, in lexicographic
  order; names that classify as neither are left out without an error; \<^verbatim>\<open>__len__\<close> is
  the number of names yielded.
\<close>

theorem iter_members_spec:
  "sorted (iter_members s g) \<and> distinct (iter_members s g) \<and>
   set (iter_members s g) =
     {key \<in> set (listdir s (g_path g)).
        contains_array s (g_key_prefix g @ key) \<or> contains_group s (g_key_prefix g @ key)} \<and>
   len_members s g = length (iter_members s g)"
  using iter_members_sorted iter_members_distinct iter_members_set len_members_length
  by blast

theorem iter_members_spec_witness:
  "iter_members demo_store root_group = [''bar'', ''foo''] \<and>
   len_members demo_store root_group = 2 \<and>
   set (listdir demo_store (g_path root_group)) = {''.zgroup'', ''foo'', ''bar'', ''stray''} \<and>
   sorted (iter_members demo_store root_group) \<and> distinct (iter_members demo_store root_group)"
proof -
  have m: "iter_members demo_store root_group = [''bar'', ''foo'']" by code_simp
  have l: "listdir demo_store (g_path root_group) = [''.zgroup'', ''foo'', ''bar'', ''stray'']"
    by code_simp
  show ?thesis
    using iter_members_spec [of demo_store root_group] by (simp add: m l)
qed

text \<open>
  Claim C10. In a store where no path has both sentinels, the names yielded by iterating a
  handle are the disjoint union of the names yielded by \<^verbatim>\<open>group_keys\<close> and by
  \<^verbatim>\<open>array_keys\<close>: the three sequences are sorted, no name is in both typed sequences, and
  the members are the two typed sequences merged in order.
\<close>

theorem member_keys_partition:
  assumes "\<forall>p. \<not> (contains_array s p \<and> contains_group s p)"
  shows "sorted (iter_members s g) \<and> sorted (group_keys s g) \<and> sorted (array_keys s g) \<and>
         set (group_keys s g) \<inter> set (array_keys s g) = {} \<and>
         set (iter_members s g) = set (group_keys s g) \<union> set (array_keys s g) \<and>
         length (iter_members s g) = length (group_keys s g) + length (array_keys s g) \<and>
         iter_members s g = sort (group_keys s g @ array_keys s g)"
proof -
  have disj: "set (group_keys s g) \<inter> set (array_keys s g) = {}"
    using assms by (auto simp: group_keys_def array_keys_def Let_def)
  have un: "set (iter_members s g) = set (group_keys s g) \<union> set (array_keys s g)"
    by (auto simp: iter_members_def group_keys_def array_keys_def Let_def)
  have d: "distinct (group_keys s g @ array_keys s g)"
    using disj group_keys_sorted array_keys_sorted by simp
  have eq: "iter_members s g = sort (group_keys s g @ array_keys s g)"
    by (rule sorted_distinct_set_unique)
       (use d un iter_members_sorted iter_members_distinct in simp_all)
  have "length (iter_members s g) = length (sort (group_keys s g @ array_keys s g))"
    using eq by simp
  then have len: "length (iter_members s g) = length (group_keys s g) + length (array_keys s g)"
    by simp
  show ?thesis
    using disj un eq len iter_members_sorted group_keys_sorted array_keys_sorted by blast
qed

lemma append_eq_split:
  "q @ a = k \<longleftrightarrow> q = take (length k - length a) k \<and> drop (length k - length a) k = a"
  by (metis append_eq_conv_conj append_take_drop_id length_drop diff_diff_cancel
      length_append add_diff_cancel_right' linorder_linear diff_is_0_eq' take_all_iff)

theorem member_keys_partition_witness:
  "(\<forall>p. \<not> (contains_array demo_store p \<and> contains_group demo_store p)) \<and>
   group_keys demo_store root_group = [''bar''] \<and>
   array_keys demo_store root_group = [''foo''] \<and>
   iter_members demo_store root_group = sort ([''bar''] @ [''foo''])"
proof -
  have h: "\<forall>p. \<not> (contains_array demo_store p \<and> contains_group demo_store p)"
    by (auto simp: contains_array_def contains_group_def demo_store_def store_keys_def
        array_meta_key_def group_meta_key_def append_eq_split)
  have gk: "group_keys demo_store root_group = [''bar'']" by code_simp
  have ak: "array_keys demo_store root_group = [''foo'']" by code_simp
  show ?thesis
    using member_keys_partition [OF h, of root_group] h by (simp add: gk ak)
qed

section \<open>Handle construction\<close>

lemma contains_group_map_of:
  "contains_group s p \<longleftrightarrow> map_of s (path_to_prefix p @ group_meta_key) \<noteq> None"
  by (simp add: contains_group_def store_keys_def map_of_eq_None_iff)

lemma Group_init_cases:
  "Group_init s path ro sy =
     (let p = normalize_storage_path path
      in if contains_array s p then (Inl ErrContainsArray, s)
         else (case map_of s (path_to_prefix p @ group_meta_key) of
                 None \<Rightarrow> (Inl ErrGroupNotFound, s)
               | Some m \<Rightarrow>
                   (case decode_group_metadata m of
                      Inl e \<Rightarrow> (Inl e, s)
                    | Inr meta \<Rightarrow>
                        (Inr \<lparr>g_path = p, g_key_prefix = path_to_prefix p, g_read_only = ro,
                              g_synchronizer = sy\<rparr>, s))))"
  by (auto simp: Group_init_def Let_def path_to_prefix_def split: option.splits sum.splits)

text \<open>
  Claim C9, amended. Constructing a handle fails with \<^verbatim>\<open>err_contains_array\<close> when the
  normalised path denotes an array; it fails with \<^verbatim>\<open>err_group_not_found\<close> when the path
  is not an array and has no group sentinel; it never writes to the store; a handle is
  returned only when the group sentinel is present and the path is not an array.
\<close>

theorem Group_init_spec:
  "(contains_array s (normalize_storage_path path) \<longrightarrow>
      fst (Group_init s path ro sy) = Inl ErrContainsArray) \<and>
   (\<not> contains_array s (normalize_storage_path path) \<and>
    \<not> contains_group s (normalize_storage_path path) \<longrightarrow>
      fst (Group_init s path ro sy) = Inl ErrGroupNotFound) \<and>
   snd (Group_init s path ro sy) = s \<and>
   (\<forall>g. fst (Group_init s path ro sy) = Inr g \<longrightarrow>
      contains_group s (normalize_storage_path path) \<and>
      \<not> contains_array s (normalize_storage_path path) \<and>
      g_path g = normalize_storage_path path)"
  by (auto simp: Group_init_cases Let_def contains_group_map_of
      split: option.splits sum.splits)

theorem Group_init_spec_witness:
  "contains_array demo_store (normalize_storage_path ''/foo/'') \<and>
   fst (Group_init demo_store ''/foo/'' False None) = Inl ErrContainsArray \<and>
   \<not> contains_array demo_store (normalize_storage_path ''stray'') \<and>
   \<not> contains_group demo_store (normalize_storage_path ''stray'') \<and>
   fst (Group_init demo_store ''stray'' False None) = Inl ErrGroupNotFound \<and>
   snd (Group_init demo_store ''bar'' False None) = demo_store \<and>
   fst (Group_init demo_store ''bar'' False None) =
     Inr \<lparr>g_path = ''bar'', g_key_prefix = ''bar/'', g_read_only = False,
          g_synchronizer = None\<rparr> \<and>
   contains_group demo_store (normalize_storage_path ''bar'')"
proof -
  have a: "contains_array demo_store (normalize_storage_path ''/foo/'')" by code_simp
  have b: "\<not> contains_array demo_store (normalize_storage_path ''stray'') \<and>
           \<not> contains_group demo_store (normalize_storage_path ''stray'')" by code_simp
  have c: "fst (Group_init demo_store ''bar'' False None) =
     Inr \<lparr>g_path = ''bar'', g_key_prefix = ''bar/'', g_read_only = False,
          g_synchronizer = None\<rparr>" by code_simp
  have n: "normalize_storage_path ''bar'' = ''bar''" by code_simp
  show ?thesis
    using Group_init_spec [of demo_store "''/foo/''" False None]
      Group_init_spec [of demo_store "''stray''" False None]
      Group_init_spec [of demo_store "''bar''" False None] a b c
    by (simp add: n)
qed

text \<open>
  The claim as written fails at an array path: no group sentinel exists there, and the
  constructor fails with \<^verbatim>\<open>err_contains_array\<close>, not with \<^verbatim>\<open>err_group_not_found\<close>.
\<close>

theorem Group_init_counterexample:
  "\<not> contains_group demo_store (normalize_storage_path ''foo'') \<and>
   fst (Group_init demo_store ''foo'' False None) = Inl ErrContainsArray \<and>
   fst (Group_init demo_store ''foo'' False None) \<noteq> Inl ErrGroupNotFound"
  by code_simp

section \<open>The mutation guard\<close>

lemma write_op_read_only: "g_read_only g \<Longrightarrow> write_op g f w = (Inl ErrReadOnly, w)"
  by (simp add: write_op_def)

text \<open>
  Claim C6. On a read-only handle every mutating operation (\<^verbatim>\<open>create_group\<close>,
  \<^verbatim>\<open>require_group\<close>, \<^verbatim>\<open>create_dataset\<close>, \<^verbatim>\<open>require_dataset\<close>, \<^verbatim>\<open>create\<close>, the array
  factories, \<^verbatim>\<open>__setitem__\<close>, \<^verbatim>\<open>__delitem__\<close>) fails with \<^verbatim>\<open>err_read_only\<close> and leaves
  the store, and the lock log, as they were, whatever the collaborators would do.
\<close>

theorem read_only_rejects_mutation:
  assumes "g_read_only g"
  shows "create_group X g name ov w = (Inl ErrReadOnly, w) \<and>
         require_group X g name ov w = (Inl ErrReadOnly, w) \<and>
         create_dataset X g name kw w = (Inl ErrReadOnly, w) \<and>
         require_dataset X g name shape dtype exact kw w = (Inl ErrReadOnly, w) \<and>
         create X g name kw w = (Inl ErrReadOnly, w) \<and>
         empty X g name kw w = (Inl ErrReadOnly, w) \<and>
         zeros X g name kw w = (Inl ErrReadOnly, w) \<and>
         ones X g name kw w = (Inl ErrReadOnly, w) \<and>
         full X g name fv kw w = (Inl ErrReadOnly, w) \<and>
         array_op X g name d kw w = (Inl ErrReadOnly, w) \<and>
         empty_like X g name d kw w = (Inl ErrReadOnly, w) \<and>
         zeros_like X g name d kw w = (Inl ErrReadOnly, w) \<and>
         ones_like X g name d kw w = (Inl ErrReadOnly, w) \<and>
         full_like X g name d kw w = (Inl ErrReadOnly, w) \<and>
         setitem X g name d w = (Inl ErrReadOnly, w) \<and>
         delitem g name w = (Inl ErrReadOnly, w)"
  using assms
  by (simp add: write_op_read_only create_group_def require_group_def create_dataset_def
      require_dataset_def create_def empty_def zeros_def ones_def full_def array_op_def
      empty_like_def zeros_like_def ones_like_def full_like_def setitem_def delitem_def)

theorem read_only_rejects_mutation_witness:
  "g_read_only read_only_root \<and>
   create_group demo_creation read_only_root ''foo'' True demo_world =
     (Inl ErrReadOnly, demo_world) \<and>
   require_dataset demo_creation read_only_root ''foo'' (ShapeInt 1000) None False no_kwargs
     demo_world = (Inl ErrReadOnly, demo_world) \<and>
   setitem demo_creation read_only_root ''foo'' () demo_world = (Inl ErrReadOnly, demo_world) \<and>
   delitem read_only_root ''foo'' demo_world = (Inl ErrReadOnly, demo_world) \<and>
   fst (create_group demo_creation root_group ''foo'' True demo_world) \<noteq> Inl ErrReadOnly"
proof -
  have ro: "g_read_only read_only_root" by (simp add: read_only_root_def)
  have w: "fst (create_group demo_creation root_group ''foo'' True demo_world) \<noteq> Inl ErrReadOnly"
    by code_simp
  show ?thesis
    using read_only_rejects_mutation [where g = read_only_root and X = demo_creation
        and name = "''foo''" and ov = True and w = demo_world and kw = no_kwargs
        and shape = "ShapeInt 1000" and dtype = None and exact = False and fv = "()"
        and d = "()"] ro w
    by simp
qed

lemma write_op_under_root_lock:
  "\<not> g_read_only g \<Longrightarrow> under_root_lock g (write_op g f) f w"
  by (auto simp: under_root_lock_def write_op_def split: option.splits prod.splits)

lemma delitem_nosync_locks: "w_locks (snd (delitem_nosync g item v)) = w_locks v"
  by (simp add: delitem_nosync_def Let_def)

text \<open>
  Claim C7. On a handle that is not read-only, every mutating operation
  (\<^verbatim>\<open>create_group\<close>, \<^verbatim>\<open>require_group\<close>, \<^verbatim>\<open>create_dataset\<close>, \<^verbatim>\<open>require_dataset\<close>,
  \<^verbatim>\<open>create\<close>, the array factories, \<^verbatim>\<open>__setitem__\<close>, \<^verbatim>\<open>__delitem__\<close>), on any item name,
  runs its body under the root lock: with a synchronizer the lock is acquired under the one
  key \<^verbatim>\<open>group_meta_key\<close>, not under a key made from the handle's path or the item name,
  before the body runs, and released under the same key after it, whether the body returned
  or failed; with no synchronizer the operation is its body. For \<^verbatim>\<open>__delitem__\<close>, whose
  body takes no lock of its own, the lock log grows by exactly that acquire and release,
  whether the item was deleted or was not found.
\<close>

theorem mutations_under_root_lock:
  assumes "\<not> g_read_only g"
  shows "under_root_lock g (create_group X g name ov) (create_group_nosync X g name ov) w \<and>
         under_root_lock g (require_group X g name ov) (require_group_nosync X g name ov) w \<and>
         under_root_lock g (create_dataset X g name kw) (create_dataset_nosync X g name kw) w \<and>
         under_root_lock g (require_dataset X g name shape dtype exact kw)
           (require_dataset_nosync X g name shape dtype exact kw) w \<and>
         under_root_lock g (create X g name kw) (create_nosync X g name kw) w \<and>
         under_root_lock g (empty X g name kw) (empty_nosync X g name kw) w \<and>
         under_root_lock g (zeros X g name kw) (zeros_nosync X g name kw) w \<and>
         under_root_lock g (ones X g name kw) (ones_nosync X g name kw) w \<and>
         under_root_lock g (full X g name fv kw) (full_nosync X g name fv kw) w \<and>
         under_root_lock g (array_op X g name d kw) (array_nosync X g name d kw) w \<and>
         under_root_lock g (empty_like X g name d kw) (empty_like_nosync X g name d kw) w \<and>
         under_root_lock g (zeros_like X g name d kw) (zeros_like_nosync X g name d kw) w \<and>
         under_root_lock g (ones_like X g name d kw) (ones_like_nosync X g name d kw) w \<and>
         under_root_lock g (full_like X g name d kw) (full_like_nosync X g name d kw) w \<and>
         under_root_lock g (setitem X g name d)
           (array_nosync X g name d (no_kwargs\<lparr>kw_overwrite := Some True\<rparr>)) w \<and>
         under_root_lock g (delitem g name) (delitem_nosync g name) w \<and>
         (\<forall>sy. g_synchronizer g = Some sy \<longrightarrow>
            w_locks (snd (delitem g name w)) =
              w_locks w @ [Acquire sy group_meta_key, Release sy group_meta_key])"
proof -
  have d: "under_root_lock g (delitem g name) (delitem_nosync g name) w"
    unfolding delitem_def using assms by (rule write_op_under_root_lock)
  have l: "\<forall>sy. g_synchronizer g = Some sy \<longrightarrow>
            w_locks (snd (delitem g name w)) =
              w_locks w @ [Acquire sy group_meta_key, Release sy group_meta_key]"
    using d by (auto simp: under_root_lock_def delitem_nosync_locks)
  show ?thesis
    using assms d l
    by (simp add: write_op_under_root_lock create_group_def require_group_def
        create_dataset_def require_dataset_def create_def empty_def zeros_def ones_def
        full_def array_op_def empty_like_def zeros_like_def ones_like_def full_like_def
        setitem_def)
qed

theorem mutations_under_root_lock_witness:
  "\<not> g_read_only locked_root \<and> g_synchronizer locked_root = Some 7 \<and>
   delitem locked_root ''bar/nothing'' demo_world =
     (Inl KeyError,
      demo_world\<lparr>w_locks := [Acquire 7 group_meta_key, Release 7 group_meta_key]\<rparr>) \<and>
   w_locks (snd (delitem locked_root ''bar'' demo_world)) =
     [Acquire 7 group_meta_key, Release 7 group_meta_key] \<and>
   w_locks (snd (create_group demo_creation locked_root ''bar/new'' False demo_world)) =
     [Acquire 7 group_meta_key, Release 7 group_meta_key]"
proof -
  have ro: "\<not> g_read_only locked_root" by (simp add: locked_root_def root_group_def)
  have sy: "g_synchronizer locked_root = Some 7" by (simp add: locked_root_def)
  have e: "w_locks demo_world = []" by (simp add: demo_world_def)
  have f: "delitem_nosync locked_root ''bar/nothing''
             (demo_world\<lparr>w_locks := w_locks demo_world @ [Acquire 7 group_meta_key]\<rparr>) =
           (Inl KeyError, demo_world\<lparr>w_locks := [Acquire 7 group_meta_key]\<rparr>)"
    by code_simp
  have c: "w_locks (snd (create_group_nosync demo_creation locked_root ''bar/new'' False
             (demo_world\<lparr>w_locks := w_locks demo_world @ [Acquire 7 group_meta_key]\<rparr>))) =
           [Acquire 7 group_meta_key]"
    by code_simp
  note t1 = mutations_under_root_lock [OF ro, where name = "''bar/nothing''" and w = demo_world
      and X = demo_creation and ov = False and kw = no_kwargs and shape = "ShapeInt 1"
      and dtype = None and exact = False and fv = "()" and d = "()"]
  note t2 = mutations_under_root_lock [OF ro, where name = "''bar''" and w = demo_world
      and X = demo_creation and ov = False and kw = no_kwargs and shape = "ShapeInt 1"
      and dtype = None and exact = False and fv = "()" and d = "()"]
  note t3 = mutations_under_root_lock [OF ro, where name = "''bar/new''" and w = demo_world
      and X = demo_creation and ov = False and kw = no_kwargs and shape = "ShapeInt 1"
      and dtype = None and exact = False and fv = "()" and d = "()"]
  have 1: "delitem locked_root ''bar/nothing'' demo_world =
     (Inl KeyError,
      demo_world\<lparr>w_locks := [Acquire 7 group_meta_key, Release 7 group_meta_key]\<rparr>)"
  proof -
    have "under_root_lock locked_root (delitem locked_root ''bar/nothing'')
            (delitem_nosync locked_root ''bar/nothing'') demo_world"
      using t1 by blast
    then show ?thesis using sy f by (simp add: under_root_lock_def)
  qed
  have 2: "w_locks (snd (delitem locked_root ''bar'' demo_world)) =
     [Acquire 7 group_meta_key, Release 7 group_meta_key]"
    using t2 sy e by simp
  have 3: "w_locks (snd (create_group demo_creation locked_root ''bar/new'' False demo_world)) =
     [Acquire 7 group_meta_key, Release 7 group_meta_key]"
  proof -
    have "under_root_lock locked_root (create_group demo_creation locked_root ''bar/new'' False)
            (create_group_nosync demo_creation locked_root ''bar/new'' False) demo_world"
      using t3 by blast
    then show ?thesis using sy c by (simp add: under_root_lock_def)
  qed
  show ?thesis using ro sy 1 2 3 by blast
qed

section \<open>\<^verbatim>\<open>require_dataset\<close> on an existing array\<close>

lemma array_meta_path: "a_path a = a_path b \<Longrightarrow> array_meta s a = array_meta s b"
  by (simp add: array_meta_def)

lemma stored_array_meta:
  "stored_array s path = Some m \<Longrightarrow>
     contains_array s path \<and> array_meta s (Array_init path ro sy cm) = Inr m"
  by (auto simp: stored_array_def array_meta_def Array_init_def split: if_splits sum.splits)

lemma write_op_result:
  assumes "\<not> g_read_only g" "\<And>v. w_store v = w_store w \<Longrightarrow> fst (f v) = r"
  shows "fst (write_op g f w) = r"
proof (cases "g_synchronizer g")
  case None
  then show ?thesis using assms by (simp add: write_op_def)
next
  case (Some sy)
  let ?v = "w\<lparr>w_locks := w_locks w @ [Acquire sy group_meta_key]\<rparr>"
  have "fst (f ?v) = r" by (rule assms(2)) simp
  then show ?thesis using assms(1) Some by (cases "f ?v") (simp add: write_op_def)
qed

lemma write_op_store_same:
  assumes "\<not> g_read_only g" "\<And>v. w_store v = w_store w \<Longrightarrow> w_store (snd (f v)) = s'"
  shows "w_store (snd (write_op g f w)) = s'"
proof (cases "g_synchronizer g")
  case None
  then show ?thesis using assms by (simp add: write_op_def)
next
  case (Some sy)
  let ?v = "w\<lparr>w_locks := w_locks w @ [Acquire sy group_meta_key]\<rparr>"
  have "w_store (snd (f ?v)) = s'" by (rule assms(2)) simp
  then show ?thesis using assms(1) Some by (cases "f ?v") (simp add: write_op_def)
qed

text \<open>What the existing-array branch of require_dataset computes.\<close>

lemma require_dataset_nosync_existing:
  assumes "stored_array (w_store v) (item_path g name) = Some (sh, dt)"
  shows "require_dataset_nosync X g name shape dtype exact kw v =
          (if normalize_shape shape \<noteq> sh then Inl TypeError
           else if exact then (if np_dtype dtype \<noteq> dt then Inl TypeError
             else Inr (Array_init (item_path g name) (g_read_only g)
                   (case kw_synchronizer kw of None \<Rightarrow> g_synchronizer g | Some sy \<Rightarrow> sy)
                   (case kw_cache_metadata kw of None \<Rightarrow> True | Some c \<Rightarrow> c)))
           else (if \<not> np_can_cast (np_dtype dtype) dt then Inl TypeError
             else Inr (Array_init (item_path g name) (g_read_only g)
                   (case kw_synchronizer kw of None \<Rightarrow> g_synchronizer g | Some sy \<Rightarrow> sy)
                   (case kw_cache_metadata kw of None \<Rightarrow> True | Some c \<Rightarrow> c))), v)"
  using stored_array_meta[OF assms]
  by (simp add: require_dataset_nosync_def Let_def)

lemma require_dataset_existing:
  assumes "\<not> g_read_only g"
      and "stored_array (w_store w) (item_path g name) = Some (sh, dt)"
  shows "fst (require_dataset X g name shape dtype exact kw w) =
          (if normalize_shape shape \<noteq> sh then Inl TypeError
           else if exact then (if np_dtype dtype \<noteq> dt then Inl TypeError
             else Inr (Array_init (item_path g name) (g_read_only g)
                   (case kw_synchronizer kw of None \<Rightarrow> g_synchronizer g | Some sy \<Rightarrow> sy)
                   (case kw_cache_metadata kw of None \<Rightarrow> True | Some c \<Rightarrow> c)))
           else (if \<not> np_can_cast (np_dtype dtype) dt then Inl TypeError
             else Inr (Array_init (item_path g name) (g_read_only g)
                   (case kw_synchronizer kw of None \<Rightarrow> g_synchronizer g | Some sy \<Rightarrow> sy)
                   (case kw_cache_metadata kw of None \<Rightarrow> True | Some c \<Rightarrow> c)))) \<and>
         w_store (snd (require_dataset X g name shape dtype exact kw w)) = w_store w"
proof -
  have "fst (require_dataset X g name shape dtype exact kw w) = 
          (if normalize_shape shape \<noteq> sh then Inl TypeError
           else if exact then (if np_dtype dtype \<noteq> dt then Inl TypeError
             else Inr (Array_init (item_path g name) (g_read_only g)
                   (case kw_synchronizer kw of None \<Rightarrow> g_synchronizer g | Some sy \<Rightarrow> sy)
                   (case kw_cache_metadata kw of None \<Rightarrow> True | Some c \<Rightarrow> c)))
           else (if \<not> np_can_cast (np_dtype dtype) dt then Inl TypeError
             else Inr (Array_init (item_path g name) (g_read_only g)
                   (case kw_synchronizer kw of None \<Rightarrow> g_synchronizer g | Some sy \<Rightarrow> sy)
                   (case kw_cache_metadata kw of None \<Rightarrow> True | Some c \<Rightarrow> c))))"
    unfolding require_dataset_def
    by (rule write_op_result[OF assms(1)]) (simp add: require_dataset_nosync_existing assms(2))
  moreover have "w_store (snd (require_dataset X g name shape dtype exact kw w)) = w_store w"
    unfolding require_dataset_def
    by (rule write_op_store_same[OF assms(1)]) (simp add: require_dataset_nosync_existing assms(2))
  ultimately show ?thesis by blast
qed

lemma np_can_cast_refl: "np_can_cast t t"
  by (cases t) simp_all

text \<open>
  Claim C1, amended. On a handle that is not read-only, at a name where an array is stored
  with the requested shape, \<^verbatim>\<open>require_dataset\<close> with \<^verbatim>\<open>exact=False\<close> returns a handle
  to the stored array when the stored and the requested element type are safely
  convertible to each other, and fails with \<^verbatim>\<open>TypeError\<close> when neither is safely
  convertible to the other; the store is not changed.
\<close>

theorem require_dataset_inexact:
  assumes "\<not> g_read_only g"
      and "stored_array (w_store w) (item_path g name) = Some (sh, dt)"
      and "normalize_shape shape = sh"
  shows "(np_can_cast (np_dtype dtype) dt \<and> np_can_cast dt (np_dtype dtype) \<longrightarrow>
            (\<exists>a. fst (require_dataset X g name shape dtype False kw w) = Inr a \<and>
                 a_path a = normalize_storage_path (item_path g name) \<and>
                 array_meta (w_store w) a = Inr (sh, dt))) \<and>
         (\<not> np_can_cast (np_dtype dtype) dt \<and> \<not> np_can_cast dt (np_dtype dtype) \<longrightarrow>
            fst (require_dataset X g name shape dtype False kw w) = Inl TypeError) \<and>
         w_store (snd (require_dataset X g name shape dtype False kw w)) = w_store w"
  using require_dataset_existing[OF assms(1,2), of X shape dtype False kw] assms(3)
    stored_array_meta[OF assms(2)]
  by (auto simp: Array_init_def)

theorem require_dataset_inexact_witness:
  "\<not> g_read_only root_group \<and>
   stored_array (w_store demo_world) (item_path root_group ''foo'') = Some ([1000], Float32) \<and>
   normalize_shape (ShapeInt 1000) = [1000] \<and>
   np_can_cast (np_dtype (Some Float32)) Float32 \<and>
   (\<exists>a. fst (require_dataset demo_creation root_group ''foo'' (ShapeInt 1000) (Some Float32)
              False no_kwargs demo_world) = Inr a \<and>
        array_meta (w_store demo_world) a = Inr ([1000], Float32)) \<and>
   \<not> np_can_cast (np_dtype (Some Int64)) Float32 \<and> \<not> np_can_cast Float32 (np_dtype (Some Int64)) \<and>
   fst (require_dataset demo_creation root_group ''foo'' (ShapeInt 1000) (Some Int64)
              False no_kwargs demo_world) = Inl TypeError"
proof -
  have ro: "\<not> g_read_only root_group" by (simp add: root_group_def)
  have st: "stored_array (w_store demo_world) (item_path root_group ''foo'') = Some ([1000], Float32)"
    by code_simp
  have sh: "normalize_shape (ShapeInt 1000) = [1000]" by simp
  show ?thesis
    using require_dataset_inexact[OF ro st sh, of "Some Float32" demo_creation no_kwargs]
      require_dataset_inexact[OF ro st sh, of "Some Int64" demo_creation no_kwargs] ro st
    by auto
qed

text \<open>
  The claim as written fails in both directions of the cast and on a read-only handle:
  a stored float32 array is returned for a requested int16, to which float32 is not
  safely convertible; it is refused for a requested float64, to which float32 is safely
  convertible; and a read-only handle fails with \<^verbatim>\<open>err_read_only\<close> whatever the types.
\<close>

theorem require_dataset_inexact_counterexample:
  "fst (require_dataset demo_creation root_group ''foo'' (ShapeInt 1000) (Some Int16)
          False no_kwargs demo_world)
     = Inr (Array_init ''foo'' False None True) \<and>
   stored_array (w_store demo_world) (item_path root_group ''foo'') = Some ([1000], Float32) \<and>
   \<not> np_can_cast Float32 Int16 \<and>
   fst (require_dataset demo_creation root_group ''foo'' (ShapeInt 1000) (Some Float64)
          False no_kwargs demo_world) = Inl TypeError \<and>
   np_can_cast Float32 Float64 \<and>
   fst (require_dataset demo_creation read_only_root ''foo'' (ShapeInt 1000)
          (Some Float32) False no_kwargs demo_world) = Inl ErrReadOnly"
  by code_simp

text \<open>
  Claim C2, amended. On a handle that is not read-only, at a name where an array is stored,
  \<^verbatim>\<open>require_dataset\<close> returns a handle to the stored array, and does not create it again,
  when the requested shape and element type equal the stored ones; it fails with
  \<^verbatim>\<open>TypeError\<close> when the requested shape differs from the stored shape; the store is not
  changed in either case.
\<close>

theorem require_dataset_shape:
  assumes "\<not> g_read_only g"
      and "stored_array (w_store w) (item_path g name) = Some (sh, dt)"
  shows "(normalize_shape shape = sh \<and> np_dtype dtype = dt \<longrightarrow>
            (\<exists>a. fst (require_dataset X g name shape dtype exact kw w) = Inr a \<and>
                 a_path a = normalize_storage_path (item_path g name) \<and>
                 array_meta (w_store w) a = Inr (sh, dt))) \<and>
         (normalize_shape shape \<noteq> sh \<longrightarrow>
            fst (require_dataset X g name shape dtype exact kw w) = Inl TypeError) \<and>
         w_store (snd (require_dataset X g name shape dtype exact kw w)) = w_store w"
  using require_dataset_existing[OF assms(1,2), of X shape dtype exact kw]
    stored_array_meta[OF assms(2)] np_can_cast_refl
  by (auto simp: Array_init_def)

theorem require_dataset_shape_witness:
  "\<not> g_read_only root_group \<and>
   stored_array (w_store demo_world) (item_path root_group ''foo'') = Some ([1000], Float32) \<and>
   normalize_shape (ShapeTuple [1000]) = [1000] \<and> np_dtype (Some Float32) = Float32 \<and>
   (\<exists>a. fst (require_dataset demo_creation root_group ''foo'' (ShapeTuple [1000])
              (Some Float32) True no_kwargs demo_world) = Inr a \<and>
        array_meta (w_store demo_world) a = Inr ([1000], Float32)) \<and>
   normalize_shape (ShapeInt 2000) \<noteq> [1000] \<and>
   fst (require_dataset demo_creation root_group ''foo'' (ShapeInt 2000) (Some Float32)
          False no_kwargs demo_world) = Inl TypeError \<and>
   w_store (snd (require_dataset demo_creation root_group ''foo'' (ShapeInt 2000)
          (Some Float32) False no_kwargs demo_world)) = w_store demo_world"
proof -
  have ro: "\<not> g_read_only root_group" by (simp add: root_group_def)
  have st: "stored_array (w_store demo_world) (item_path root_group ''foo'') =
              Some ([1000], Float32)"
    by code_simp
  show ?thesis
    using require_dataset_shape [OF ro st, of "ShapeTuple [1000]" "Some Float32"
        demo_creation True no_kwargs]
      require_dataset_shape [OF ro st, of "ShapeInt 2000" "Some Float32"
        demo_creation False no_kwargs] ro st
    by auto
qed

text \<open>
  The claim as written fails when the shapes are equal and the element types are not
  compatible, and on a read-only handle, where a differing shape gives
  \<^verbatim>\<open>err_read_only\<close>.
\<close>

theorem require_dataset_shape_counterexample:
  "stored_array (w_store demo_world) (item_path root_group ''foo'') = Some ([1000], Float32) \<and>
   normalize_shape (ShapeInt 1000) = [1000] \<and>
   fst (require_dataset demo_creation root_group ''foo'' (ShapeInt 1000) (Some Int64)
          True no_kwargs demo_world) = Inl TypeError \<and>
   normalize_shape (ShapeInt 2000) \<noteq> [1000] \<and>
   fst (require_dataset demo_creation read_only_root ''foo'' (ShapeInt 2000) (Some Float32)
          False no_kwargs demo_world) = Inl ErrReadOnly"
  by code_simp

section \<open>Deletion\<close>

lemma prefix_sentinel:
  assumes "q = p \<or> prefix (path_to_prefix p) q"
  shows "prefix (path_to_prefix p) (path_to_prefix q @ k)"
  using assms by (auto simp: path_to_prefix_def prefix_def)

lemma rmdir_keys:
  "k \<in> set (store_keys (rmdir s p)) \<longleftrightarrow> k \<in> set (store_keys s) \<and> \<not> prefix (path_to_prefix p) k"
  by (auto simp: rmdir_def store_keys_def)

lemma rmdir_map_of:
  "\<not> prefix (path_to_prefix p) k \<Longrightarrow> map_of (rmdir s p) k = map_of s k"
  unfolding rmdir_def by (induction s) auto

lemma rmdir_clears:
  assumes "q = p \<or> prefix (path_to_prefix p) q"
  shows "\<not> contains_array (rmdir s p) q \<and> \<not> contains_group (rmdir s p) q"
  using prefix_sentinel[OF assms] by (simp add: contains_array_def contains_group_def rmdir_keys)

text \<open>
  Claim C8. On a handle that is not read-only, \<^verbatim>\<open>__delitem__\<close> resolves the item to a
  path; when the path classifies as an array or a group it removes every key under the
  path's prefix and no other key, so that afterwards neither sentinel exists at the path
  or at any path below it and membership of every such path is false; otherwise it fails
  with \<^verbatim>\<open>KeyError\<close> and the store is as it was.
\<close>

theorem delitem_spec:
  assumes "\<not> g_read_only g" and "p = item_path g item"
      and "s' = w_store (snd (delitem g item w))"
  shows "(contains_array (w_store w) p \<or> contains_group (w_store w) p \<longrightarrow>
            fst (delitem g item w) = Inr () \<and>
            (\<forall>k. k \<in> set (store_keys s') \<longleftrightarrow>
                   k \<in> set (store_keys (w_store w)) \<and> \<not> prefix (path_to_prefix p) k) \<and>
            (\<forall>k. \<not> prefix (path_to_prefix p) k \<longrightarrow> map_of s' k = map_of (w_store w) k) \<and>
            (\<forall>q. q = p \<or> prefix (path_to_prefix p) q \<longrightarrow>
                   \<not> contains_array s' q \<and> \<not> contains_group s' q) \<and>
            (\<forall>h i. item_path h i = p \<or> prefix (path_to_prefix p) (item_path h i) \<longrightarrow>
                   \<not> contains s' h i)) \<and>
         (\<not> (contains_array (w_store w) p \<or> contains_group (w_store w) p) \<longrightarrow>
            fst (delitem g item w) = Inl KeyError \<and> s' = w_store w)"
proof (cases "contains_array (w_store w) p \<or> contains_group (w_store w) p")
  case True
  have r: "fst (delitem g item w) = Inr ()"
    unfolding delitem_def
    by (rule write_op_result[OF assms(1)]) (use True assms(2) in \<open>simp add: delitem_nosync_def\<close>)
  have s: "s' = rmdir (w_store w) p"
    unfolding assms(3) delitem_def
    by (rule write_op_store_same[OF assms(1)]) (use True assms(2) in \<open>simp add: delitem_nosync_def\<close>)
  show ?thesis
    using True r rmdir_keys rmdir_map_of rmdir_clears
    unfolding s contains_def Let_def by blast
next
  case False
  have r: "fst (delitem g item w) = Inl KeyError"
    unfolding delitem_def
    by (rule write_op_result[OF assms(1)]) (use False assms(2) in \<open>simp add: delitem_nosync_def\<close>)
  have s: "s' = w_store w"
    unfolding assms(3) delitem_def
    by (rule write_op_store_same[OF assms(1)]) (use False assms(2) in \<open>simp add: delitem_nosync_def\<close>)
  show ?thesis using False r s by blast
qed


theorem delitem_spec_witness:
  "\<not> g_read_only locked_root \<and>
   contains_group (w_store demo_world) (item_path locked_root ''bar'') \<and>
   fst (delitem locked_root ''bar'' demo_world) = Inr () \<and>
   contains demo_store root_group ''bar/quux/data'' \<and>
   \<not> contains (w_store (snd (delitem locked_root ''bar'' demo_world))) root_group
       ''bar/quux/data'' \<and>
   map_of (w_store (snd (delitem locked_root ''bar'' demo_world))) ''foo/.zarray'' =
     Some (ArrayMeta [1000] Float32) \<and>
   fst (delitem locked_root ''stray'' demo_world) = Inl KeyError \<and>
   w_store (snd (delitem locked_root ''stray'' demo_world)) = demo_store"
proof -
  have ro: "\<not> g_read_only locked_root" by (simp add: locked_root_def root_group_def)
  have p: "''bar'' = item_path locked_root ''bar''" "''stray'' = item_path locked_root ''stray''"
    by code_simp+
  have c: "contains_group (w_store demo_world) ''bar''"
    "\<not> (contains_array (w_store demo_world) ''stray'' \<or>
        contains_group (w_store demo_world) ''stray'')"
    by code_simp+
  have d: "prefix (path_to_prefix ''bar'') (item_path root_group ''bar/quux/data'')"
    "\<not> prefix (path_to_prefix ''bar'') ''foo/.zarray''"
    "contains demo_store root_group ''bar/quux/data''"
    "map_of (w_store demo_world) ''foo/.zarray'' = Some (ArrayMeta [1000] Float32)"
    "w_store demo_world = demo_store"
    by code_simp+
  show ?thesis
    using delitem_spec [OF ro p(1) refl, of demo_world]
      delitem_spec [OF ro p(2) refl, of demo_world] ro p c d
    by metis
qed

section \<open>Normalised paths\<close>

lemma collapse_length: "length (collapse xs) \<le> length xs"
  by (induction xs rule: collapse.induct) auto

lemma collapse_Cons: "\<exists>ys. collapse (b # xs) = b # ys"
  by (induction xs arbitrary: b) auto

lemma collapse_last: "xs \<noteq> [] \<Longrightarrow> last (collapse xs) = last xs"
proof (induction xs rule: collapse.induct)
  case (1 a b xs)
  obtain ys where ys: "collapse (b # xs) = b # ys" using collapse_Cons by blast
  with 1 show ?case by auto
qed auto

lemma collapse_id_iff: "collapse xs = xs \<longleftrightarrow> nodouble xs"
proof (induction xs rule: collapse.induct)
  case (1 a b xs)
  have "length (collapse (b # xs)) \<le> Suc (length xs)"
    using collapse_length[of "b # xs"] by simp
  then have "collapse (b # xs) \<noteq> a # b # xs"
    by (auto dest: arg_cong[where f = length])
  with 1 show ?case by auto
qed auto

lemma collapse_nodouble: "nodouble (collapse xs)"
proof (induction xs rule: collapse.induct)
  case (1 a b xs)
  obtain ys where ys: "collapse (b # xs) = b # ys" using collapse_Cons by blast
  with 1 show ?case by auto
qed auto

lemma dropWhile_same_length:
  assumes "length (dropWhile P xs) = length xs"
  shows "dropWhile P xs = xs"
proof -
  have "length (takeWhile P xs) + length (dropWhile P xs) = length xs"
    by (metis length_append takeWhile_dropWhile_id)
  with assms have "takeWhile P xs = []" by simp
  then show ?thesis by (metis append_Nil takeWhile_dropWhile_id)
qed

lemma dropWhile_id_iff: "dropWhile P xs = xs \<longleftrightarrow> xs = [] \<or> \<not> P (hd xs)"
proof (cases xs)
  case Nil
  then show ?thesis by simp
next
  case (Cons x ys)
  have "length (dropWhile P ys) \<le> length ys" by (rule length_dropWhile_le)
  then have "dropWhile P ys \<noteq> x # ys" by (auto dest: arg_cong[where f = length])
  with Cons show ?thesis by simp
qed

lemma strip_sep_length: "length (strip_sep p) \<le> length p"
proof -
  have "length (dropWhile (\<lambda>c. c = sep) (rev (dropWhile (\<lambda>c. c = sep) p)))
          \<le> length (dropWhile (\<lambda>c. c = sep) p)"
    using length_dropWhile_le[of "\<lambda>c. c = sep" "rev (dropWhile (\<lambda>c. c = sep) p)"] by simp
  also have "\<dots> \<le> length p" by (rule length_dropWhile_le)
  finally show ?thesis by (simp add: strip_sep_def)
qed

lemma strip_sep_id_iff: "strip_sep p = p \<longleftrightarrow> p = [] \<or> (hd p \<noteq> sep \<and> last p \<noteq> sep)"
proof
  assume eq: "strip_sep p = p"
  let ?q = "dropWhile (\<lambda>c. c = sep) p"
  have l1: "length (dropWhile (\<lambda>c. c = sep) (rev ?q)) \<le> length ?q"
    using length_dropWhile_le[of "\<lambda>c. c = sep" "rev ?q"] by simp
  have l2: "length ?q \<le> length p" by (rule length_dropWhile_le)
  have "length (dropWhile (\<lambda>c. c = sep) (rev ?q)) = length p"
    using arg_cong[OF eq, of length] by (simp add: strip_sep_def)
  with l1 l2 have "length ?q = length p" by simp
  then have q: "?q = p" by (rule dropWhile_same_length)
  with eq have "rev (dropWhile (\<lambda>c. c = sep) (rev p)) = p" by (simp add: strip_sep_def)
  then have "dropWhile (\<lambda>c. c = sep) (rev p) = rev p" by (metis rev_rev_ident)
  then have r: "rev p = [] \<or> hd (rev p) \<noteq> sep" by (simp add: dropWhile_id_iff)
  from q have h: "p = [] \<or> hd p \<noteq> sep" by (simp add: dropWhile_id_iff)
  show "p = [] \<or> (hd p \<noteq> sep \<and> last p \<noteq> sep)"
    using r h by (auto simp: hd_rev)
next
  assume a: "p = [] \<or> (hd p \<noteq> sep \<and> last p \<noteq> sep)"
  show "strip_sep p = p"
  proof (cases "p = []")
    case True
    then show ?thesis by (simp add: strip_sep_def)
  next
    case False
    with a have h: "hd p \<noteq> sep" and l: "last p \<noteq> sep" by auto
    have 1: "dropWhile (\<lambda>c. c = sep) p = p" using h by (simp add: dropWhile_id_iff)
    have 2: "dropWhile (\<lambda>c. c = sep) (rev p) = rev p"
      using l False by (simp add: dropWhile_id_iff hd_rev)
    show ?thesis by (simp add: strip_sep_def 1 2)
  qed
qed

lemma normalize_id_iff: "normalize_storage_path p = p \<longleftrightarrow> clean p"
proof
  assume eq: "normalize_storage_path p = p"
  have "length (collapse (strip_sep p)) \<le> length (strip_sep p)" by (rule collapse_length)
  moreover have "length (collapse (strip_sep p)) = length p"
    using arg_cong[OF eq, of length] by (simp add: normalize_storage_path_def)
  ultimately have "length (strip_sep p) = length p" using strip_sep_length[of p] by simp
  have s: "strip_sep p = p"
  proof -
    let ?q = "dropWhile (\<lambda>c. c = sep) p"
    have l1: "length (dropWhile (\<lambda>c. c = sep) (rev ?q)) \<le> length ?q"
      using length_dropWhile_le[of "\<lambda>c. c = sep" "rev ?q"] by simp
    have l2: "length ?q \<le> length p" by (rule length_dropWhile_le)
    have l3: "length (dropWhile (\<lambda>c. c = sep) (rev ?q)) = length p"
      using \<open>length (strip_sep p) = length p\<close> by (simp add: strip_sep_def)
    with l1 l2 have "length ?q = length p" by simp
    then have q: "?q = p" by (rule dropWhile_same_length)
    have "length (dropWhile (\<lambda>c. c = sep) (rev p)) = length (rev p)" using l3 q by simp
    then have "dropWhile (\<lambda>c. c = sep) (rev p) = rev p" by (rule dropWhile_same_length)
    then show ?thesis by (simp add: strip_sep_def q)
  qed
  with eq have c: "collapse p = p" by (simp add: normalize_storage_path_def)
  show "clean p"
    using s c by (auto simp: clean_def strip_sep_id_iff collapse_id_iff)
next
  assume "clean p"
  then have "strip_sep p = p" and "collapse p = p"
    by (auto simp: clean_def strip_sep_id_iff collapse_id_iff)
  then show "normalize_storage_path p = p" by (simp add: normalize_storage_path_def)
qed

lemma strip_sep_ends: "strip_sep p = [] \<or> (hd (strip_sep p) \<noteq> sep \<and> last (strip_sep p) \<noteq> sep)"
proof -
  define q where "q = dropWhile (\<lambda>c. c = sep) p"
  define r where "r = dropWhile (\<lambda>c. c = sep) (rev q)"
  define zs where "zs = takeWhile (\<lambda>c. c = sep) (rev q)"
  have s: "strip_sep p = rev r" by (simp add: strip_sep_def q_def r_def)
  have hr: "r = [] \<or> hd r \<noteq> sep"
    unfolding r_def using hd_dropWhile[of "\<lambda>c. c = sep" "rev q"] by blast
  have hq: "q = [] \<or> hd q \<noteq> sep"
    unfolding q_def using hd_dropWhile[of "\<lambda>c. c = sep" p] by blast
  have "rev q = zs @ r" unfolding zs_def r_def by simp
  then have "rev (rev q) = rev (zs @ r)" by simp
  then have qr: "q = rev r @ rev zs" by simp
  show ?thesis
  proof (cases "r = []")
    case True
    then show ?thesis by (simp add: s)
  next
    case False
    with hr have "last (rev r) \<noteq> sep" by (simp add: last_rev)
    moreover have "hd q = hd (rev r)" using qr False by (simp add: hd_append)
    moreover have "q \<noteq> []" using qr False by simp
    ultimately show ?thesis using hq by (simp add: s)
  qed
qed

lemma normalize_clean: "clean (normalize_storage_path p)"
proof (cases "strip_sep p = []")
  case True
  then show ?thesis by (simp add: normalize_storage_path_def clean_def)
next
  case False
  then obtain b xs where bx: "strip_sep p = b # xs" by (cases "strip_sep p") auto
  obtain ys where ys: "collapse (b # xs) = b # ys" using collapse_Cons by blast
  have e: "hd (strip_sep p) \<noteq> sep" "last (strip_sep p) \<noteq> sep"
    using strip_sep_ends[of p] False by auto
  have "last (collapse (strip_sep p)) = last (strip_sep p)"
    using False by (rule collapse_last)
  then show ?thesis
    using e bx ys collapse_nodouble[of "strip_sep p"]
    by (simp add: normalize_storage_path_def clean_def)
qed

lemma normalize_idem: "normalize_storage_path (normalize_storage_path p) = normalize_storage_path p"
  by (simp add: normalize_id_iff normalize_clean)

lemma nodouble_append:
  "nodouble (xs @ ys) \<longleftrightarrow>
     nodouble xs \<and> nodouble ys \<and> \<not> (xs \<noteq> [] \<and> ys \<noteq> [] \<and> last xs = sep \<and> hd ys = sep)"
proof (induction xs)
  case Nil
  show ?case by simp
next
  case (Cons a xs)
  note IH = Cons.IH
  show ?case
  proof (cases xs)
    case Nil
    then show ?thesis by (cases ys) auto
  next
    case (Cons b zs)
    then show ?thesis using IH by auto
  qed
qed

lemma nodouble_no_sep: "sep \<notin> set k \<Longrightarrow> nodouble k"
  by (induction k rule: nodouble.induct) auto

lemma clean_segment: "k \<noteq> [] \<Longrightarrow> sep \<notin> set k \<Longrightarrow> clean k"
  by (metis clean_def hd_in_set last_in_set nodouble_no_sep)

lemma clean_child:
  assumes "clean p" "k \<noteq> []" "sep \<notin> set k"
  shows "clean (path_to_prefix p @ k)"
proof (cases "p = []")
  case True
  then show ?thesis using assms by (simp add: path_to_prefix_def clean_segment)
next
  case False
  have nk: "nodouble k" using assms(3) by (rule nodouble_no_sep)
  have hk: "hd k \<noteq> sep" using assms(2,3) by (cases k) auto
  have lk: "last k \<noteq> sep" using assms(2,3) last_in_set by metis
  have "nodouble (p @ sep # k)"
    using assms(1) False nk hk
    by (auto simp: nodouble_append clean_def) (cases k; simp)+
  then show ?thesis
    using False assms(1,2) lk
    by (cases p) (auto simp: clean_def path_to_prefix_def)
qed

lemma nodouble_sep_sep: "\<not> nodouble (xs @ sep # sep # ys)"
  by (simp add: nodouble_append)

section \<open>Members of a group in a well-formed store\<close>

lemma foldr_max_ge: "k \<in> set ks \<Longrightarrow> length k \<le> foldr (\<lambda>k m. max (length k) m) ks 0"
  by (induction ks) auto

lemma key_bound_ge: "k \<in> set (store_keys s) \<Longrightarrow> length k \<le> key_bound s"
  unfolding key_bound_def by (rule foldr_max_ge)

lemma sentinel_bound:
  "contains_array s p \<or> contains_group s p \<Longrightarrow> length p < key_bound s"
  using key_bound_ge[of "path_to_prefix p @ array_meta_key" s]
    key_bound_ge[of "path_to_prefix p @ group_meta_key" s]
  by (auto simp: contains_array_def contains_group_def path_to_prefix_def array_meta_key_def
      group_meta_key_def split: if_splits)

lemma listdir_names:
  assumes "wf_store s" "clean p" "k \<in> set (listdir s p)"
  shows "k \<noteq> [] \<and> sep \<notin> set k"
proof -
  let ?pre = "path_to_prefix p"
  obtain key where key: "key \<in> set (store_keys s)" "prefix ?pre key" "length ?pre < length key"
    "k = takeWhile (\<lambda>c. c \<noteq> sep) (drop (length ?pre) key)"
    using assms(3) by (auto simp: listdir_def Let_def)
  have ck: "clean key"
    using assms(1) key(1) by (simp add: wf_store_def list_all_iff normalize_id_iff)
  obtain rest where rest: "key = ?pre @ rest" using key(2) by (auto simp: prefix_def)
  with key(3) have rne: "rest \<noteq> []" by auto
  have k: "k = takeWhile (\<lambda>c. c \<noteq> sep) rest" using key(4) rest by simp
  have "sep \<notin> set k" unfolding k by (auto dest: set_takeWhileD)
  moreover have "k \<noteq> []"
  proof
    assume "k = []"
    with k rne have "hd rest = sep" by (cases rest) (auto split: if_splits)
    with rne obtain r where r: "rest = sep # r" by (cases rest) auto
    show False
    proof (cases "p = []")
      case True
      then have "key = sep # r" using rest r by (simp add: path_to_prefix_def)
      with ck show False by (simp add: clean_def)
    next
      case False
      then have "key = p @ sep # sep # r" using rest r by (simp add: path_to_prefix_def)
      with ck nodouble_sep_sep[of p r] show False by (auto simp: clean_def)
    qed
  qed
  ultimately show ?thesis by simp
qed

lemma members_ok:
  assumes "wf_store s" "valid_group g" "k \<in> set (iter_members s g)"
  shows "k \<noteq> [] \<and> sep \<notin> set k \<and>
         (contains_array s (g_key_prefix g @ k) \<or> contains_group s (g_key_prefix g @ k))"
proof -
  have "k \<in> set (listdir s (g_path g))" using assms(3) by (simp add: iter_members_def)
  moreover have "clean (g_path g)" using assms(2) by (simp add: valid_group_def normalize_id_iff)
  ultimately have "k \<noteq> [] \<and> sep \<notin> set k" using assms(1) listdir_names by blast
  then show ?thesis using assms(3) by (simp add: iter_members_def Let_def)
qed

lemma item_path_member:
  assumes "valid_group g" "k \<noteq> []" "sep \<notin> set k"
  shows "item_path g k = g_key_prefix g @ k"
    and "normalize_storage_path (g_key_prefix g @ k) = g_key_prefix g @ k"
proof -
  have ck: "clean k" using assms(2,3) by (rule clean_segment)
  then have nk: "normalize_storage_path k = k" by (simp add: normalize_id_iff)
  have hk: "hd k \<noteq> sep" using assms(2,3) hd_in_set by metis
  show "item_path g k = g_key_prefix g @ k"
    using assms(1) hk nk by (auto simp: item_path_def Let_def valid_group_def path_to_prefix_def)
  have "clean (g_path g)" using assms(1) by (simp add: valid_group_def normalize_id_iff)
  then have "clean (path_to_prefix (g_path g) @ k)" using assms(2,3) by (rule clean_child)
  then show "normalize_storage_path (g_key_prefix g @ k) = g_key_prefix g @ k"
    using assms(1) by (simp add: valid_group_def normalize_id_iff)
qed

lemma group_sentinel_decodes:
  assumes "wf_store s" "contains_group s p"
  shows "\<exists>m. map_of s (path_to_prefix p @ group_meta_key) = Some m \<and>
             decode_group_metadata m = Inr ()"
proof -
  obtain m where m: "map_of s (path_to_prefix p @ group_meta_key) = Some m"
    using assms(2) by (auto simp: contains_group_map_of)
  then have "(path_to_prefix p @ group_meta_key, m) \<in> set s" by (rule map_of_SomeD)
  moreover have "suffix group_meta_key (path_to_prefix p @ group_meta_key)"
    by (rule suffixI) simp
  ultimately have "decode_group_metadata m = Inr ()"
    using assms(1) by (auto simp: wf_store_def list_all_iff)
  with m show ?thesis by blast
qed

lemma Group_init_group:
  assumes "wf_store s" "normalize_storage_path p = p" "\<not> contains_array s p"
    "contains_group s p"
  shows "fst (Group_init s p ro sy) =
           Inr \<lparr>g_path = p, g_key_prefix = path_to_prefix p, g_read_only = ro,
                g_synchronizer = sy\<rparr>"
  using group_sentinel_decodes[OF assms(1,4)] assms(2,3)
  by (auto simp: Group_init_cases Let_def)

lemma getitem_member:
  assumes "wf_store s" "valid_group g" "k \<in> set (iter_members s g)"
  shows "getitem s g k = Inr (child s g k)"
proof -
  note ok = members_ok[OF assms]
  note ip = item_path_member[OF assms(2), of k]
  show ?thesis
  proof (cases "contains_array s (g_key_prefix g @ k)")
    case True
    then show ?thesis
      using ok ip by (simp add: getitem_def Let_def child_def child_array_def Array_init_def)
  next
    case False
    then have cg: "contains_group s (g_key_prefix g @ k)" using ok by blast
    have "fst (Group_init s (g_key_prefix g @ k) (g_read_only g) (g_synchronizer g)) =
            Inr (child_group g k)"
      using Group_init_group[OF assms(1) _ False cg] ok ip by (simp add: child_group_def)
    then show ?thesis
      using False cg ok ip by (simp add: getitem_def Let_def child_def)
  qed
qed

lemma child_group_valid:
  assumes "valid_group g" "k \<noteq> []" "sep \<notin> set k"
  shows "valid_group (child_group g k)"
  using item_path_member(2)[OF assms] by (simp add: valid_group_def child_group_def)

lemma child_path: "node_path (child s g k) = g_key_prefix g @ k"
  by (simp add: child_def child_group_def child_array_def)

lemma hd_not_sep: "k \<noteq> [] \<Longrightarrow> sep \<notin> set k \<Longrightarrow> hd k \<noteq> sep"
  by (cases k) auto

lemma child_valid:
  assumes "wf_store s" "valid_group g" "k \<in> set (iter_members s g)"
  shows "valid_node (child s g k)"
    and "length (g_path g) < length (node_path (child s g k))"
    and "length (node_path (child s g k)) < key_bound s"
proof -
  note ok = members_ok[OF assms]
  show "valid_node (child s g k)"
    using ok child_group_valid[OF assms(2), of k] by (simp add: child_def)
  show "length (g_path g) < length (node_path (child s g k))"
    using ok assms(2) by (auto simp: child_path valid_group_def path_to_prefix_def)
  show "length (node_path (child s g k)) < key_bound s"
    using ok sentinel_bound[of s "g_key_prefix g @ k"] by (simp add: child_path)
qed

lemma members_strict: "sorted_wrt (<) (iter_members s g)"
  using iter_members_sorted iter_members_distinct by (simp add: strict_sorted_iff)

lemma sort_members: "sort (iter_members s g) = iter_members s g"
  using iter_members_sorted by (simp add: sort_key_id_if_sorted)

lemma Group_init_valid: "fst (Group_init s path ro sy) = Inr g \<Longrightarrow> valid_group g"
  by (auto simp: Group_init_cases Let_def valid_group_def normalize_idem
      split: if_splits option.splits sum.splits)

section \<open>The traversal\<close>

lemma visit_gen_mono:
  "snd (visit_gen n s obj) = None \<Longrightarrow> visit_gen (Suc n) s obj = visit_gen n s obj"
  "snd (visit_keys n s obj ks) = None \<Longrightarrow> visit_keys (Suc n) s obj ks = visit_keys n s obj ks"
proof (induction n s obj and n s obj ks rule: visit_gen_visit_keys.induct)
  case (1 s obj)
  then show ?case by simp
next
  case (2 n s obj)
  then show ?case by (auto simp: Let_def split: prod.splits)
next
  case (3 n s obj)
  then show ?case by simp
next
  case (4 n s obj each_key keys)
  then show ?case
    by (auto simp: Let_def split: prod.splits sum.splits option.splits)
qed

lemma visit_gen_mono_le:
  "n \<le> m \<Longrightarrow> snd (visit_gen n s obj) = None \<Longrightarrow> visit_gen m s obj = visit_gen n s obj"
proof (induction m)
  case 0
  then show ?case by simp
next
  case (Suc m)
  show ?case
  proof (cases "n = Suc m")
    case True
    then show ?thesis by simp
  next
    case False
    then have le: "n \<le> m" using Suc.prems(1) by simp
    then have e: "visit_gen m s obj = visit_gen n s obj" using Suc by blast
    then have "snd (visit_gen m s obj) = None" using Suc.prems(2) by simp
    then show ?thesis using visit_gen_mono(1) e by simp
  qed
qed

lemma split_sep_nonempty: "split_sep r \<noteq> []"
  by (induction r) (auto split: list.splits)

lemma split_sep_segment: "sep \<notin> set k \<Longrightarrow> split_sep k = [k]"
  by (induction k) auto

lemma split_sep_append: "sep \<notin> set k \<Longrightarrow> split_sep (k @ sep # r) = k # split_sep r"
  by (induction k) auto

lemma seg_child:
  assumes "sep \<notin> set k"
  shows "seg g (child s g k) = [k]" and "k \<noteq> [] \<Longrightarrow> below g (child s g k)"
  using assms hd_not_sep[of k] by (auto simp: seg_def below_def child_path split_sep_segment)

lemma below_child_group:
  assumes "k \<noteq> []" "sep \<notin> set k" "below (child_group g k) x"
  shows "below g x \<and> seg g x = k # seg (child_group g k) x \<and> seg (child_group g k) x \<noteq> []"
proof -
  obtain rel where rel: "node_path x = g_key_prefix (child_group g k) @ rel" "rel \<noteq> []"
    using assms(3) by (auto simp: below_def)
  have kp: "g_key_prefix (child_group g k) = g_key_prefix g @ k @ [sep]"
    using assms(1) by (simp add: child_group_def path_to_prefix_def)
  have p: "node_path x = g_key_prefix g @ (k @ sep # rel)" using rel kp by simp
  have h: "hd (k @ sep # rel) \<noteq> sep" using assms(1,2) hd_not_sep[of k] by simp
  have "below g x" unfolding below_def using p h by blast
  moreover have "seg g x = k # split_sep rel"
    using assms(2) by (simp add: seg_def p split_sep_append)
  moreover have "seg (child_group g k) x = split_sep rel"
    by (simp add: seg_def rel(1))
  ultimately show ?thesis using split_sep_nonempty by simp
qed

lemma visit_keys_members:
  assumes "wf_store s" "valid_group g"
      and "set ks \<subseteq> set (iter_members s g)" "sorted_wrt (<) ks"
      and "\<forall>k\<in>set ks. good n s (child s g k)"
  shows "\<exists>R. visit_keys n s (GroupNode g) ks = (R, None) \<and>
             R = concat (map (\<lambda>k. fst (visit_gen n s (child s g k))) ks) \<and>
             (\<forall>x\<in>set R. below g x \<and> (\<exists>k\<in>set ks. \<exists>l. seg g x = k # l)) \<and>
             sorted_wrt (<) (map (seg g) R)"
  using assms(3,4,5)
proof (induction ks)
  case Nil
  then show ?case by simp
next
  case (Cons k ks)
  have kin: "k \<in> set (iter_members s g)" using Cons.prems(1) by simp
  note ok = members_ok[OF assms(1,2) kin]
  have kne: "k \<noteq> []" and ksep: "sep \<notin> set k" using ok by auto
  let ?c = "child s g k"
  have gi: "node_getitem s (GroupNode g) k = Inr ?c"
    using getitem_member[OF assms(1,2) kin] by simp
  obtain ds where ds: "visit_gen n s ?c = (?c # ds, None)"
    and cs: "(case ?c of ArrayNode a \<Rightarrow> ds = []
             | GroupNode g' \<Rightarrow> (\<forall>x\<in>set ds. below g' x) \<and> sorted_wrt (<) (map (seg g') ds))"
    using Cons.prems(3) by (auto simp: good_def)
  obtain R where R: "visit_keys n s (GroupNode g) ks = (R, None)"
    "R = concat (map (\<lambda>k. fst (visit_gen n s (child s g k))) ks)"
    "\<forall>x\<in>set R. below g x \<and> (\<exists>k\<in>set ks. \<exists>l. seg g x = k # l)"
    "sorted_wrt (<) (map (seg g) R)"
    using Cons.IH Cons.prems by auto
  have blk: "\<forall>x\<in>set ds. below g x \<and> (\<exists>l. seg g x = k # l \<and> l \<noteq> [])"
    and srt: "sorted_wrt (<) (map (seg g) ds)"
  proof -
    show "\<forall>x\<in>set ds. below g x \<and> (\<exists>l. seg g x = k # l \<and> l \<noteq> [])"
    proof (cases "contains_array s (g_key_prefix g @ k)")
      case True
      then show ?thesis using cs by (simp add: child_def)
    next
      case False
      then have c: "?c = GroupNode (child_group g k)" by (simp add: child_def)
      then have "\<forall>x\<in>set ds. below (child_group g k) x" using cs by simp
      then show ?thesis using below_child_group[OF kne ksep] by blast
    qed
    show "sorted_wrt (<) (map (seg g) ds)"
    proof (cases "contains_array s (g_key_prefix g @ k)")
      case True
      then show ?thesis using cs by (simp add: child_def)
    next
      case False
      then have c: "?c = GroupNode (child_group g k)" by (simp add: child_def)
      then have b: "\<forall>x\<in>set ds. below (child_group g k) x"
        and s: "sorted_wrt (<) (map (seg (child_group g k)) ds)" using cs by simp_all
      have e: "map (seg g) ds = map (\<lambda>x. k # seg (child_group g k) x) ds"
        using b below_child_group[OF kne ksep] by simp
      have "sorted_wrt (\<lambda>x y. k # seg (child_group g k) x < k # seg (child_group g k) y) ds"
        using s by (simp add: sorted_wrt_map)
      then show ?thesis unfolding e by (simp add: sorted_wrt_map)
    qed
  qed
  have hdc: "seg g ?c = [k]" "below g ?c" using seg_child[OF ksep] kne by auto
  have "\<forall>x\<in>set ds. [k] < seg g x"
  proof
    fix x assume "x \<in> set ds"
    then obtain l where "seg g x = k # l" "l \<noteq> []" using blk by blast
    then show "[k] < seg g x" by (cases l) simp_all
  qed
  then have block_sorted: "sorted_wrt (<) (map (seg g) (?c # ds))"
    using srt hdc by simp
  have less_later: "\<forall>k'\<in>set ks. k < k'" using Cons.prems(2) by simp
  have cross: "\<forall>x\<in>set (?c # ds). \<forall>y\<in>set R. seg g x < seg g y"
  proof (intro ballI)
    fix x y assume x: "x \<in> set (?c # ds)" and y: "y \<in> set R"
    obtain l where l: "seg g x = k # l" using x blk hdc by auto
    obtain k' l' where k': "k' \<in> set ks" "seg g y = k' # l'" using y R(3) by blast
    show "seg g x < seg g y" using l k' less_later by simp
  qed
  have vk: "visit_keys n s (GroupNode g) (k # ks) = ((?c # ds) @ R, None)"
    using gi ds R(1) by simp
  have cc: "(?c # ds) @ R = concat (map (\<lambda>k. fst (visit_gen n s (child s g k))) (k # ks))"
    using ds R(2) by simp
  have mem: "\<forall>x\<in>set ((?c # ds) @ R). below g x \<and> (\<exists>k'\<in>set (k # ks). \<exists>l. seg g x = k' # l)"
    using blk hdc R(3) by auto
  have "sorted_wrt (<) (map (seg g) (?c # ds) @ map (seg g) R)"
    unfolding sorted_wrt_append using block_sorted R(4) cross by auto
  then have so: "sorted_wrt (<) (map (seg g) ((?c # ds) @ R))" by simp
  show ?case using vk cc mem so by blast
qed

lemma visit_gen_good:
  "valid_node c \<Longrightarrow> wf_store s \<Longrightarrow> 0 < n \<Longrightarrow> key_bound s < n + length (node_path c)
     \<Longrightarrow> good n s c"
proof (induction n arbitrary: c)
  case 0
  then show ?case by simp
next
  case (Suc m)
  show ?case
  proof (cases c)
    case (ArrayNode a)
    then show ?thesis by (simp add: good_def)
  next
    case (GroupNode g)
    then have vg: "valid_group g" using Suc.prems(1) by simp
    have ch: "\<forall>k\<in>set (iter_members s g). good m s (child s g k)"
    proof
      fix k assume k: "k \<in> set (iter_members s g)"
      note cv = child_valid[OF Suc.prems(2) vg k]
      have b: "key_bound s < m + length (node_path (child s g k))"
        using cv(2) Suc.prems(4) GroupNode by simp
      then have "0 < m" using cv(3) by simp
      then show "good m s (child s g k)" using Suc.IH cv(1) Suc.prems(2) b by blast
    qed
    obtain R where R: "visit_keys m s (GroupNode g) (iter_members s g) = (R, None)"
      "\<forall>x\<in>set R. below g x \<and> (\<exists>k\<in>set (iter_members s g). \<exists>l. seg g x = k # l)"
      "sorted_wrt (<) (map (seg g) R)"
      using visit_keys_members[OF Suc.prems(2) vg subset_refl members_strict ch] by blast
    then show ?thesis using GroupNode by (simp add: good_def sort_members)
  qed
qed

lemma visit_gen_group:
  assumes "wf_store s" "valid_group g" "key_bound s < d"
  shows "visit_gen d s (GroupNode g) = (GroupNode g # descendants d s g, None)"
    and "\<forall>x\<in>set (descendants d s g). below g x"
    and "sorted_wrt (<) (map (seg g) (descendants d s g))"
proof -
  have "good d s (GroupNode g)"
    using visit_gen_good[of "GroupNode g" s d] assms by simp
  then obtain ds where ds: "visit_gen d s (GroupNode g) = (GroupNode g # ds, None)"
    "\<forall>x\<in>set ds. below g x" "sorted_wrt (<) (map (seg g) ds)"
    by (auto simp: good_def)
  then have e: "descendants d s g = ds" by (simp add: descendants_def)
  show "visit_gen d s (GroupNode g) = (GroupNode g # descendants d s g, None)"
    "\<forall>x\<in>set (descendants d s g). below g x"
    "sorted_wrt (<) (map (seg g) (descendants d s g))"
    using ds e by simp_all
qed

lemma descendants_unfold:
  assumes "wf_store s" "valid_group g" "key_bound s < d"
  shows "descendants d s g = concat (map (subtree d s g) (iter_members s g))"
proof -
  obtain m where d: "d = Suc m" using assms(3) by (cases d) auto
  have ch: "\<forall>k\<in>set (iter_members s g). good m s (child s g k)"
  proof
    fix k assume k: "k \<in> set (iter_members s g)"
    note cv = child_valid[OF assms(1,2) k]
    have b: "key_bound s < m + length (node_path (child s g k))"
      using cv(2) assms(3) d by simp
    then have "0 < m" using cv(3) by simp
    then show "good m s (child s g k)" using visit_gen_good cv(1) assms(1) b by blast
  qed
  obtain R where R: "visit_keys m s (GroupNode g) (iter_members s g) = (R, None)"
    "R = concat (map (\<lambda>k. fst (visit_gen m s (child s g k))) (iter_members s g))"
    using visit_keys_members[OF assms(1,2) subset_refl members_strict ch] by blast
  have "descendants d s g = R"
    using R(1) by (simp add: descendants_def d sort_members)
  moreover have "\<forall>k\<in>set (iter_members s g).
                   fst (visit_gen m s (child s g k)) = subtree d s g k"
  proof
    fix k assume k: "k \<in> set (iter_members s g)"
    let ?c = "child s g k"
    from ch k obtain ds where ds: "visit_gen m s ?c = (?c # ds, None)"
      by (auto simp: good_def)
    then have up: "visit_gen d s ?c = (?c # ds, None)"
      using visit_gen_mono(1)[of m s ?c] by (simp add: d)
    have gi: "getitem s g k = Inr ?c" using getitem_member[OF assms(1,2) k] .
    show "fst (visit_gen m s ?c) = subtree d s g k"
    proof (cases ?c)
      case (GroupNode c')
      then show ?thesis using ds up gi by (simp add: subtree_def descendants_def)
    next
      case (ArrayNode a)
      moreover have "ds = []" using ch k ds ArrayNode by (auto simp: good_def)
      ultimately show ?thesis using ds gi by (simp add: subtree_def)
    qed
  qed
  ultimately show ?thesis using R(2) by (simp cong: map_cong)
qed

lemma descendants_fuel:
  assumes "wf_store s" "valid_group g" "key_bound s < d" "key_bound s < d'"
  shows "descendants d' s g = descendants d s g"
proof -
  have a: "snd (visit_gen d s (GroupNode g)) = None" "snd (visit_gen d' s (GroupNode g)) = None"
    using visit_gen_group(1)[OF assms(1,2,3)] visit_gen_group(1)[OF assms(1,2,4)] by simp_all
  have "visit_gen d' s (GroupNode g) = visit_gen d s (GroupNode g)"
  proof (cases "d \<le> d'")
    case True
    then show ?thesis using visit_gen_mono_le a(1) by blast
  next
    case False
    then have "d' \<le> d" by simp
    then show ?thesis using visit_gen_mono_le[of d' d s "GroupNode g"] a(2) by simp
  qed
  then show ?thesis by (simp add: descendants_def)
qed

lemma below_not_self: "valid_group g \<Longrightarrow> below g x \<Longrightarrow> x \<noteq> GroupNode g"
  by (auto simp: below_def valid_group_def path_to_prefix_def split: if_splits)

lemma visit_loop_all_none:
  "\<forall>x\<in>set ds. func x = None \<Longrightarrow> visit_loop func ds = (None, ds)"
  by (induction ds) auto

lemma visit_loop_first:
  "i < length ds \<Longrightarrow> func (ds ! i) = Some v \<Longrightarrow> \<forall>j<i. func (ds ! j) = None
     \<Longrightarrow> visit_loop func ds = (Some v, take (Suc i) ds)"
proof (induction ds arbitrary: i)
  case Nil
  then show ?case by simp
next
  case (Cons x ds)
  show ?case
  proof (cases i)
    case 0
    then show ?thesis using Cons.prems by simp
  next
    case (Suc i')
    have "func x = None" using Cons.prems(3) Suc by auto
    moreover have "\<forall>j<i'. func (ds ! j) = None"
    proof (intro allI impI)
      fix j assume "j < i'"
      then have "Suc j < i" using Suc by simp
      then have "func ((x # ds) ! Suc j) = None" using Cons.prems(3) by blast
      then show "func (ds ! j) = None" by simp
    qed
    then have "visit_loop func ds = (Some v, take (Suc i') ds)"
      using Cons.IH[of i'] Cons.prems(1,2) Suc by simp
    ultimately show ?thesis using Suc by simp
  qed
qed

lemma visitvalues_result:
  assumes "visit_gen d s (GroupNode g) = (GroupNode g # ds, None)"
  shows "(\<forall>x\<in>set ds. func x = None) \<longrightarrow> visitvalues d s g func = (Inr None, ds)"
    and "i < length ds \<and> func (ds ! i) = Some v \<and> (\<forall>j<i. func (ds ! j) = None) \<longrightarrow>
           visitvalues d s g func = (Inr (Some v), take (Suc i) ds)"
  using assms visit_loop_all_none[of ds func] visit_loop_first[of i ds func v]
  by (auto simp: visitvalues_def)

text \<open>
  Claim C3, amended. Over a store whose keys are normalised paths and whose group
  sentinels hold group metadata, for a handle the constructor returned and a depth bound
  above the length of the longest key: the generator of
  \<^verbatim>\<open>visitvalues\<close> ends without an exception and yields the handle itself first and then
  its descendants, the same for every such bound; the handle itself is not among the
  descendants, so it is never passed to the visitor; the descendants are the members in
  sorted order, each followed at once by its own descendants (depth-first, pre-order);
  the visitor is applied to them in that order; at the first one where it returns a value
  other than \<^verbatim>\<open>None\<close> the call returns that value and the visitor has been applied to
  the objects up to that one and to no other; where it returns \<^verbatim>\<open>None\<close> on every
  descendant it has been applied to all of them and the call returns \<^verbatim>\<open>None\<close>.
\<close>

theorem visitvalues_preorder_short_circuit:
  assumes "wf_store s" and "fst (Group_init s path ro sy) = Inr g" and "key_bound s < d"
  shows "visit_gen d s (GroupNode g) = (GroupNode g # descendants d s g, None) \<and>
         (\<forall>d'. key_bound s < d' \<longrightarrow> descendants d' s g = descendants d s g) \<and>
         GroupNode g \<notin> set (descendants d s g) \<and>
         descendants d s g = concat (map (subtree d s g) (iter_members s g)) \<and>
         (\<forall>i v. i < length (descendants d s g) \<and> func (descendants d s g ! i) = Some v \<and>
                (\<forall>j<i. func (descendants d s g ! j) = None) \<longrightarrow>
                visitvalues d s g func = (Inr (Some v), take (Suc i) (descendants d s g))) \<and>
         ((\<forall>x\<in>set (descendants d s g). func x = None) \<longrightarrow>
            visitvalues d s g func = (Inr None, descendants d s g))"
proof -
  have vg: "valid_group g" using assms(2) by (rule Group_init_valid)
  note g = visit_gen_group[OF assms(1) vg assms(3)]
  have 1: "\<forall>d'. key_bound s < d' \<longrightarrow> descendants d' s g = descendants d s g"
    using descendants_fuel[OF assms(1) vg assms(3)] by blast
  have 2: "GroupNode g \<notin> set (descendants d s g)"
    using g(2) below_not_self[OF vg] by blast
  have 3: "descendants d s g = concat (map (subtree d s g) (iter_members s g))"
    using descendants_unfold[OF assms(1) vg assms(3)] .
  show ?thesis
    using g(1) 1 2 3 visitvalues_result[OF g(1), where func = func] by blast
qed

theorem visitvalues_preorder_short_circuit_witness:
  "wf_store demo_store \<and> fst (Group_init demo_store [] False None) = Inr root_group \<and>
   key_bound demo_store < 22 \<and>
   map node_path (descendants 22 demo_store root_group) =
     [''bar'', ''bar/baz'', ''bar/quux'', ''bar/quux/data'', ''foo''] \<and>
   GroupNode root_group \<notin> set (descendants 22 demo_store root_group) \<and>
   demo_node_visitor (descendants 22 demo_store root_group ! 1) = Some 2 \<and>
   visitvalues 22 demo_store root_group demo_node_visitor =
     (Inr (Some 2), take 2 (descendants 22 demo_store root_group)) \<and>
   descendants 23 demo_store root_group = descendants 22 demo_store root_group"
proof -
  have h: "wf_store demo_store" "fst (Group_init demo_store [] False None) = Inr root_group"
    "key_bound demo_store < 22"
    by code_simp+
  have p: "map node_path (descendants 22 demo_store root_group) =
             [''bar'', ''bar/baz'', ''bar/quux'', ''bar/quux/data'', ''foo'']"
    by code_simp
  have c: "1 < length (descendants 22 demo_store root_group)"
    "demo_node_visitor (descendants 22 demo_store root_group ! 1) = Some 2"
    "demo_node_visitor (descendants 22 demo_store root_group ! 0) = None"
    by code_simp+
  have n: "\<forall>j<1. demo_node_visitor (descendants 22 demo_store root_group ! j) = None"
    using c(3) by simp
  have b: "key_bound demo_store < 23" using h(3) by simp
  note t = visitvalues_preorder_short_circuit [OF h, of demo_node_visitor]
  have "visitvalues 22 demo_store root_group demo_node_visitor =
          (Inr (Some 2), take (Suc 1) (descendants 22 demo_store root_group))"
    using t c(1,2) n by blast
  moreover have "GroupNode root_group \<notin> set (descendants 22 demo_store root_group)"
    using t by blast
  moreover have "descendants 23 demo_store root_group = descendants 22 demo_store root_group"
    using t b by blast
  ultimately show ?thesis using h p c(2) by (simp add: numeral_2_eq_2)
qed

text \<open>
  The claim as written, for every handle, fails on a store that is not well formed. Where
  a key starts with the separator, the root lists the empty name as a member, the member
  under that name is the root itself, so the root handle is passed to the visitor, and a
  visitor that never stops ends in \<open>RecursionError\<close>. Where a group sentinel below the
  root holds bytes that are not group metadata, the call raises the decoder's error and
  does not return \<^verbatim>\<open>None\<close>.
\<close>

theorem visitvalues_counterexample:
  "fst (Group_init bad_store [] False None) = Inr root_group \<and>
   key_bound bad_store < 10 \<and>
   visitvalues 10 bad_store root_group root_visitor = (Inr (Some 0), [GroupNode root_group]) \<and>
   fst (visitvalues 10 bad_store root_group no_visitor) = Inl RecursionError \<and>
   fst (Group_init undecodable_store [] False None) = Inr root_group \<and>
   key_bound undecodable_store < 10 \<and>
   visitvalues 10 undecodable_store root_group no_visitor = (Inl MetadataError, [])"
  by code_simp

lemma rel_path_below:
  assumes "valid_group g" "below g x"
  shows "node_path x = g_key_prefix g @ rel_path g x" "rel_path g x \<noteq> []"
    "hd (rel_path g x) \<noteq> sep" "seg g x = split_sep (rel_path g x)"
proof -
  obtain rel where rel: "node_path x = g_key_prefix g @ rel" "rel \<noteq> []" "hd rel \<noteq> sep"
    using assms(2) by (auto simp: below_def)
  have cl: "clean (g_path g)" and kp: "g_key_prefix g = path_to_prefix (g_path g)"
    using assms(1) by (simp_all add: valid_group_def normalize_id_iff)
  have ls: "lstrip_sep rel = rel" using rel(2,3) by (cases rel) (auto simp: lstrip_sep_def)
  have r: "rel_path g x = rel"
  proof (cases "g_path g = []")
    case True
    then have "node_path x = rel" using rel(1) kp by (simp add: path_to_prefix_def)
    then show ?thesis
      using rel(2,3) True ls by (simp add: rel_path_def node_name_def group_name_def name_of_path_def)
  next
    case False
    then have h: "hd (g_path g) \<noteq> sep" using cl by (simp add: clean_def)
    have np: "node_path x = g_path g @ sep # rel"
      using rel(1) kp False by (simp add: path_to_prefix_def)
    have nn: "node_name x = sep # g_path g @ sep # rel"
      using np h False by (simp add: node_name_def name_of_path_def hd_append)
    have gn: "group_name g = sep # g_path g"
      using h False by (simp add: group_name_def name_of_path_def)
    have "lstrip_sep (sep # rel) = lstrip_sep rel" by (simp add: lstrip_sep_def)
    then show ?thesis using ls by (simp add: rel_path_def nn gn)
  qed
  show "node_path x = g_key_prefix g @ rel_path g x" "rel_path g x \<noteq> []"
    "hd (rel_path g x) \<noteq> sep" "seg g x = split_sep (rel_path g x)"
    using rel r by (simp_all add: seg_def)
qed

lemma strict_prefix_less:
  fixes xs ys :: "('a::linorder) list"
  shows "strict_prefix xs ys \<Longrightarrow> xs < ys"
proof (induction xs arbitrary: ys)
  case Nil
  then show ?case by (cases ys) auto
next
  case (Cons x xs)
  then show ?case by (cases ys) auto
qed

lemma append_last_less:
  fixes r :: "('a::linorder) list"
  shows "a < b \<Longrightarrow> r @ [a] < r @ [b]"
  by (induction r) auto

lemma sorted_wrt_index:
  fixes L :: "('a::linorder) list"
  assumes "sorted_wrt (<) L" "i < length L" "j < length L" "L ! i < L ! j"
  shows "i < j"
proof (rule ccontr)
  assume "\<not> i < j"
  then consider "j = i" | "j < i" by linarith
  then show False
  proof cases
    case 1
    then show ?thesis using assms(4) by simp
  next
    case 2
    then have "L ! j < L ! i" using assms(1,2) sorted_wrt_nth_less by blast
    then show ?thesis using assms(4) by simp
  qed
qed

lemma visit_as_visitvalues:
  "visit d s g func = visitvalues d s g (\<lambda>obj. func (rel_path g obj))"
  by (simp add: visit_def rel_path_def Let_def)

text \<open>
  Claim C4, amended. Under the same conditions on the store, the handle and the depth
  bound, \<^verbatim>\<open>visit\<close> calls the visitor with the path of each
  descendant relative to the handle: the descendant's path is the handle's prefix followed
  by that name, which is not empty and has no leading separator. The names are visited in
  strictly increasing order of their segment lists, so a parent comes before its children
  and, of two siblings, the one with the smaller name comes first. The call stops at the
  first name for which the visitor returns a value other than \<^verbatim>\<open>None\<close> and returns that
  value, and returns \<^verbatim>\<open>None\<close> where there is none, as \<^verbatim>\<open>visitvalues\<close> does.
\<close>

theorem visit_relative_preorder:
  assumes "wf_store s" and "fst (Group_init s path ro sy) = Inr g" and "key_bound s < d"
      and "ds = descendants d s g"
  shows "(\<forall>x\<in>set ds. node_path x = g_key_prefix g @ rel_path g x \<and> rel_path g x \<noteq> [] \<and>
                      hd (rel_path g x) \<noteq> sep) \<and>
         sorted_wrt (<) (map (\<lambda>x. split_sep (rel_path g x)) ds) \<and>
         (\<forall>i j. i < length ds \<and> j < length ds \<and>
                strict_prefix (split_sep (rel_path g (ds ! i))) (split_sep (rel_path g (ds ! j)))
                \<longrightarrow> i < j) \<and>
         (\<forall>i j r a b. i < length ds \<and> j < length ds \<and>
                split_sep (rel_path g (ds ! i)) = r @ [a] \<and>
                split_sep (rel_path g (ds ! j)) = r @ [b] \<and> a < b \<longrightarrow> i < j) \<and>
         (\<forall>i v. i < length ds \<and> func (rel_path g (ds ! i)) = Some v \<and>
                (\<forall>j<i. func (rel_path g (ds ! j)) = None) \<longrightarrow>
                visit d s g func = (Inr (Some v), take (Suc i) ds)) \<and>
         ((\<forall>x\<in>set ds. func (rel_path g x) = None) \<longrightarrow> visit d s g func = (Inr None, ds))"
proof -
  have vg: "valid_group g" using assms(2) by (rule Group_init_valid)
  note g = visit_gen_group[OF assms(1) vg assms(3), folded assms(4)]
  let ?L = "map (\<lambda>x. split_sep (rel_path g x)) ds"
  have 1: "\<forall>x\<in>set ds. node_path x = g_key_prefix g @ rel_path g x \<and> rel_path g x \<noteq> [] \<and>
                      hd (rel_path g x) \<noteq> sep"
    using g(2) rel_path_below[OF vg] by blast
  have e: "map (seg g) ds = ?L"
  proof (rule map_cong[OF refl])
    fix x assume "x \<in> set ds"
    then show "seg g x = split_sep (rel_path g x)"
      using g(2) rel_path_below(4)[OF vg] by blast
  qed
  have 2: "sorted_wrt (<) ?L" unfolding e[symmetric] by (rule g(3))
  have idx: "\<And>i j. i < length ds \<Longrightarrow> j < length ds \<Longrightarrow> ?L ! i < ?L ! j \<Longrightarrow> i < j"
    using sorted_wrt_index[OF 2] by simp
  have 3: "\<forall>i j. i < length ds \<and> j < length ds \<and>
                strict_prefix (split_sep (rel_path g (ds ! i))) (split_sep (rel_path g (ds ! j)))
                \<longrightarrow> i < j"
  proof (intro allI impI)
    fix i j
    assume a: "i < length ds \<and> j < length ds \<and>
                strict_prefix (split_sep (rel_path g (ds ! i))) (split_sep (rel_path g (ds ! j)))"
    then have sp: "strict_prefix (split_sep (rel_path g (ds ! i)))
                     (split_sep (rel_path g (ds ! j)))" by blast
    have "split_sep (rel_path g (ds ! i)) < split_sep (rel_path g (ds ! j))"
      by (rule strict_prefix_less[OF sp])
    then have "?L ! i < ?L ! j" using a by simp
    then show "i < j" using idx a by blast
  qed
  have 4: "\<forall>i j r a b. i < length ds \<and> j < length ds \<and>
                split_sep (rel_path g (ds ! i)) = r @ [a] \<and>
                split_sep (rel_path g (ds ! j)) = r @ [b] \<and> a < b \<longrightarrow> i < j"
  proof (intro allI impI)
    fix i j r a b
    assume a: "i < length ds \<and> j < length ds \<and>
                split_sep (rel_path g (ds ! i)) = r @ [a] \<and>
                split_sep (rel_path g (ds ! j)) = r @ [b] \<and> a < b"
    then have "a < b" by blast
    then have "r @ [a] < r @ [b]" by (rule append_last_less)
    then have "?L ! i < ?L ! j" using a by simp
    then show "i < j" using idx a by blast
  qed
  have 5: "\<forall>i v. i < length ds \<and> func (rel_path g (ds ! i)) = Some v \<and>
                (\<forall>j<i. func (rel_path g (ds ! j)) = None) \<longrightarrow>
                visit d s g func = (Inr (Some v), take (Suc i) ds)"
    using visitvalues_result(2)[OF g(1), where func = "\<lambda>obj. func (rel_path g obj)"]
    by (simp add: visit_as_visitvalues)
  have 6: "(\<forall>x\<in>set ds. func (rel_path g x) = None) \<longrightarrow> visit d s g func = (Inr None, ds)"
    using visitvalues_result(1)[OF g(1), where func = "\<lambda>obj. func (rel_path g obj)"]
    by (simp add: visit_as_visitvalues)
  show ?thesis using 1 2 3 4 5 6 by blast
qed

theorem visit_relative_preorder_witness:
  "wf_store demo_store \<and> fst (Group_init demo_store [] False None) = Inr root_group \<and>
   key_bound demo_store < 22 \<and>
   map (rel_path root_group) (descendants 22 demo_store root_group) =
     [''bar'', ''bar/baz'', ''bar/quux'', ''bar/quux/data'', ''foo''] \<and>
   sorted_wrt (<) (map (\<lambda>x. split_sep (rel_path root_group x))
                       (descendants 22 demo_store root_group)) \<and>
   demo_visitor (rel_path root_group (descendants 22 demo_store root_group ! 1)) = Some 2 \<and>
   visit 22 demo_store root_group demo_visitor =
     (Inr (Some 2), take 2 (descendants 22 demo_store root_group))"
proof -
  have h: "wf_store demo_store" "fst (Group_init demo_store [] False None) = Inr root_group"
    "key_bound demo_store < 22"
    by code_simp+
  have p: "map (rel_path root_group) (descendants 22 demo_store root_group) =
             [''bar'', ''bar/baz'', ''bar/quux'', ''bar/quux/data'', ''foo'']"
    by code_simp
  have c: "1 < length (descendants 22 demo_store root_group)"
    "demo_visitor (rel_path root_group (descendants 22 demo_store root_group ! 1)) = Some 2"
    "demo_visitor (rel_path root_group (descendants 22 demo_store root_group ! 0)) = None"
    by code_simp+
  have n: "\<forall>j<1. demo_visitor (rel_path root_group
                     (descendants 22 demo_store root_group ! j)) = None"
    using c(3) by simp
  note t = visit_relative_preorder [OF h refl, of demo_visitor]
  have "visit 22 demo_store root_group demo_visitor =
          (Inr (Some 2), take (Suc 1) (descendants 22 demo_store root_group))"
    using t c(1,2) n by blast
  moreover have "sorted_wrt (<) (map (\<lambda>x. split_sep (rel_path root_group x))
                       (descendants 22 demo_store root_group))"
    using t by blast
  ultimately show ?thesis using h p c(2) by (simp add: numeral_2_eq_2)
qed

text \<open>
  The claim as written, for every handle, fails on the same two stores: the visitor is
  called with the empty name, for the root itself, and the call raises the decoder's
  error.
\<close>

theorem visit_counterexample:
  "fst (Group_init bad_store [] False None) = Inr root_group \<and>
   key_bound bad_store < 10 \<and>
   visit 10 bad_store root_group empty_name_visitor = (Inr (Some 0), [GroupNode root_group]) \<and>
   fst (Group_init undecodable_store [] False None) = Inr root_group \<and>
   key_bound undecodable_store < 10 \<and>
   visit 10 undecodable_store root_group no_name_visitor = (Inl MetadataError, [])"
  by code_simp

end
